theory Spec2Isabelle
  imports Main
begin

section \<open>Python values, exceptions and the plugin interface\<close>

text \<open>
  RaftCmdLine.py drives plugins and parsers that live outside the file: their behaviour
  is a parameter of the model. An exception is a value; the two constructors separate
  the classes that \<^verbatim>\<open>except Exception\<close> catches from those that derive from
  BaseException only (KeyboardInterrupt, SystemExit), which it lets through.
\<close>

datatype exn =
    Exception (exn_class: string) (exn_msg: string)
  | BaseExceptionOnly (exn_class: string) (exn_msg: string)

fun isinstance_Exception :: "exn \<Rightarrow> bool" where
  "isinstance_Exception (Exception c m) = True"
| "isinstance_Exception (BaseExceptionOnly c m) = False"

text \<open>
  The values a plugin function returns. A capture is an object without \<^verbatim>\<open>__bool__\<close> or
  \<^verbatim>\<open>__len__\<close>, so it is truthy; \<open>truthy\<close> is Python's truth test, as \<^verbatim>\<open>if not result\<close>
  applies it.
\<close>

datatype 'c pyval = PyNone | PyBool bool | PyInt int | PyStr string | PyCapture 'c

fun truthy :: "'c pyval \<Rightarrow> bool" where
  "truthy PyNone = False"
| "truthy (PyBool b) = b"
| "truthy (PyInt i) = (i \<noteq> 0)"
| "truthy (PyStr s) = (s \<noteq> [])"
| "truthy (PyCapture c) = True"

text \<open>
  A plugin function takes its argument and the world (everything outside the RaftCmdLine
  object: the plugin's own globals and instance, the file system) and returns the new
  world with either the exception it raised or its return value.
\<close>

type_synonym ('w, 'c) pyfunc = "'c pyval \<Rightarrow> 'w \<Rightarrow> 'w \<times> (exn + 'c pyval)"

text \<open>
  What \<^verbatim>\<open>getattr(instance, item)\<close> can give, by \<^verbatim>\<open>str(type(itemvalue))\<close>: a bound
  method, another callable (a static method, a function stored on the instance, a
  builtin), or plain data. An instance is the list of its \<^verbatim>\<open>dir\<close> names with their
  values.
\<close>

datatype ('w, 'c) pyattr =
    BoundMethod "'c pyval \<Rightarrow> 'w \<Rightarrow> 'w \<times> (exn + 'c pyval)"
  | OtherCallable "'c pyval \<Rightarrow> 'w \<Rightarrow> 'w \<times> (exn + 'c pyval)"
  | PlainData

type_synonym ('w, 'c) pyinstance = "(string \<times> ('w, 'c) pyattr) list"

text \<open>
  What a top-level binding of an executed script can hold, by \<^verbatim>\<open>str(type(value))\<close>: a
  class (calling it runs the constructor, which may raise), a function, another callable
  (a builtin, a partial, a callable object), or plain data.
\<close>

datatype ('w, 'c) pyobj =
    ClassObj "'w \<Rightarrow> 'w \<times> (exn + ('w, 'c) pyinstance)"
  | FunctionObj "'c pyval \<Rightarrow> 'w \<Rightarrow> 'w \<times> (exn + 'c pyval)"
  | CallableObj "'c pyval \<Rightarrow> 'w \<Rightarrow> 'w \<times> (exn + 'c pyval)"
  | DataObj

type_synonym ('w, 'c) namespace = "(string \<times> ('w, 'c) pyobj) list"

datatype code = Code string

text \<open>
  A parser returns a one-shot finite generator: each pull ends the stream, raises, or
  yields one raw record.
\<close>

datatype 'r pystream = Stop | Raise exn | Yield 'r "'r pystream"

datatype parser_fn =
    raft_parse_xml | burp_parse_log | burp_parse_xml | burp_parse_vuln_xml
  | burp_parse_state | appscan_parse_xml | webscarab_parse_conversation
  | paros_parse_message

text \<open>
  The collaborators imported by RaftCmdLine.py: the operating system, the Python
  compiler and interpreter, the parsers of lib.parsers, ParseAdapter.adapt and
  raft.__version__.
\<close>

record ('w, 'r, 'c) externals =
  os_path_exists :: "'w \<Rightarrow> string \<Rightarrow> bool"
  open_read :: "'w \<Rightarrow> string \<Rightarrow> exn + string"
  py_compile :: "string \<Rightarrow> exn + code"
  py_exec :: "code \<Rightarrow> 'w \<Rightarrow> 'w \<times> (exn + ('w, 'c) namespace)"
  run_parser :: "parser_fn \<Rightarrow> string \<Rightarrow> 'w \<Rightarrow> 'r pystream"
  adapt :: "'r \<Rightarrow> exn + 'c"
  version :: string

section \<open>The state of a RaftCmdLine object\<close>

text \<open>
  The trace lists, in order, what the object does to the outside: what it writes, what it
  reads, compiles, executes and instantiates, and every plugin function it calls, with
  the script the function was taken from, the argument and the outcome.
\<close>

datatype 'c event =
    StdoutWrite string
  | StderrWrite string
  | Print string
  | OpenRead string
  | Compile string
  | Exec string
  | Instantiate string
  | Call_initialize string string "exn + 'c pyval"
  | Call_capture_filter string 'c "exn + 'c pyval"
  | Call_process_capture string 'c "exn + 'c pyval"

record ('w, 'c) script_env =
  env_filename :: string
  env_valid :: bool
  env_initialized :: bool
  env_instance :: "('w, 'c) pyinstance option"
  env_functions :: "string \<rightharpoonup> ('w, 'c) pyfunc"
  env_local_ns :: "('w, 'c) namespace"

text \<open>
  \<^verbatim>\<open>self.scripts\<close> maps a path to its script_env dictionary. The two script lists hold
  references to the same dictionaries; as a dictionary is created once per path and kept
  in \<^verbatim>\<open>self.scripts\<close> under that path, a reference is the path.
\<close>

record ('w, 'c) raft =
  world :: 'w
  trace :: "'c event list"
  scripts :: "string \<rightharpoonup> ('w, 'c) script_env"
  capture_filter_scripts :: "string list"
  process_capture_scripts :: "string list"

definition init_raft :: "'w \<Rightarrow> ('w, 'c) raft" where
  "init_raft w = \<lparr>world = w, trace = [], scripts = Map.empty,
     capture_filter_scripts = [], process_capture_scripts = []\<rparr>"

definition emit :: "'c event \<Rightarrow> ('w, 'c) raft \<Rightarrow> ('w, 'c) raft" where
  "emit ev st = st\<lparr>trace := trace st @ [ev]\<rparr>"

section \<open>load_script_file\<close>

fun startswith_underscore :: "string \<Rightarrow> bool" where
  "startswith_underscore [] = False"
| "startswith_underscore (c # cs) = (c = CHR ''_'')"

text \<open>The loop over \<^verbatim>\<open>dir(instance)\<close>.\<close>

fun collect_methods ::
  "('w, 'c) pyinstance \<Rightarrow> ('w, 'c) script_env \<Rightarrow> ('w, 'c) script_env" where
  "collect_methods [] script_env = script_env"
| "collect_methods ((item, itemvalue) # rest) script_env =
     (if \<not> startswith_underscore item then
        (case itemvalue of
           BoundMethod m \<Rightarrow>
             collect_methods rest
               (script_env\<lparr>env_functions := (env_functions script_env)(item \<mapsto> m)\<rparr>)
         | _ \<Rightarrow> collect_methods rest script_env)
      else collect_methods rest script_env)"

text \<open>The loop over the keys of \<^verbatim>\<open>script_env['local_ns']\<close>.\<close>

fun scan_local_ns ::
  "('w, 'c) namespace \<Rightarrow> ('w, 'c) script_env \<Rightarrow> ('w, 'c) raft \<Rightarrow>
   ('w, 'c) raft \<times> (exn + ('w, 'c) script_env)" where
  "scan_local_ns [] script_env st = (st, Inr script_env)"
| "scan_local_ns ((key, val) # rest) script_env st =
     (case val of
        ClassObj ctor \<Rightarrow>
          (case ctor (world st) of
             (w, Inl e) \<Rightarrow> (emit (Instantiate key) (st\<lparr>world := w\<rparr>), Inl e)
           | (w, Inr inst) \<Rightarrow>
               scan_local_ns rest
                 (collect_methods inst (script_env\<lparr>env_instance := Some inst\<rparr>))
                 (emit (Instantiate key) (st\<lparr>world := w\<rparr>)))
      | FunctionObj f \<Rightarrow>
          scan_local_ns rest
            (script_env\<lparr>env_functions := (env_functions script_env)(key \<mapsto> f)\<rparr>) st
      | _ \<Rightarrow> scan_local_ns rest script_env st)"

text \<open>The body of the \<^verbatim>\<open>try\<close> of load_script_file.\<close>

definition load_try ::
  "('w, 'r, 'c) externals \<Rightarrow> string \<Rightarrow> ('w, 'c) script_env \<Rightarrow> ('w, 'c) raft \<Rightarrow>
   ('w, 'c) raft \<times> (exn + ('w, 'c) script_env)" where
  "load_try X python_code script_env st =
     (case py_compile X python_code of
        Inl e \<Rightarrow> (emit (Compile (env_filename script_env)) st, Inl e)
      | Inr compiled \<Rightarrow>
          (case py_exec X compiled (world st) of
             (w, Inl e) \<Rightarrow>
               (emit (Exec (env_filename script_env))
                  (emit (Compile (env_filename script_env)) (st\<lparr>world := w\<rparr>)), Inl e)
           | (w, Inr local_ns) \<Rightarrow>
               scan_local_ns local_ns (script_env\<lparr>env_local_ns := local_ns\<rparr>)
                 (emit (Exec (env_filename script_env))
                    (emit (Compile (env_filename script_env)) (st\<lparr>world := w\<rparr>)))))"

text \<open>
  The dictionary created for a script that is not cached. The entry \<^verbatim>\<open>global_ns\<close> is
  left out: it is written by \<^verbatim>\<open>exec\<close> only and never read.
\<close>

definition new_script_env :: "string \<Rightarrow> ('w, 'c) script_env" where
  "new_script_env filename =
     \<lparr>env_filename = filename, env_valid = True, env_initialized = False,
      env_instance = None, env_functions = Map.empty, env_local_ns = []\<rparr>"

definition load_script_file ::
  "('w, 'r, 'c) externals \<Rightarrow> string \<Rightarrow> ('w, 'c) raft \<Rightarrow>
   ('w, 'c) raft \<times> (exn + string)" where
  "load_script_file X filename st =
     (if filename \<in> dom (scripts st) then (st, Inr filename)
      else
        (case open_read X (world st) filename of
           Inl e \<Rightarrow> (emit (OpenRead filename) st, Inl e)
         | Inr python_code \<Rightarrow>
             (case load_try X python_code (new_script_env filename)
                     (emit (OpenRead filename) st) of
                (st1, Inl error) \<Rightarrow>
                  (if isinstance_Exception error
                   then (emit (Print (exn_msg error)) st1, Inl error)
                   else (st1, Inl error))
              | (st1, Inr script_env) \<Rightarrow>
                  (st1\<lparr>scripts := (scripts st1)(filename \<mapsto> script_env)\<rparr>, Inr filename))))"

section \<open>parse_one_file\<close>

text \<open>The first loop of parse_one_file: every cached script_env gets initialized = False.\<close>

definition reset_initialized :: "('w, 'c) raft \<Rightarrow> ('w, 'c) raft" where
  "reset_initialized st =
     st\<lparr>scripts := (\<lambda>key. map_option (\<lambda>script_env. script_env\<lparr>env_initialized := False\<rparr>)
                          (scripts st key))\<rparr>"

text \<open>
  The initializer step shared by the two set-up loops: the \<^verbatim>\<open>initialize\<close> function of
  the script is called with the file name when the script has one and its flag is not
  set, and the flag is set after the call returns.
\<close>

definition run_initializer ::
  "string \<Rightarrow> string \<Rightarrow> ('w, 'c) script_env \<Rightarrow> ('w, 'c) raft \<Rightarrow>
   ('w, 'c) raft \<times> (exn + unit)" where
  "run_initializer filename ref script_env st =
     (case env_functions script_env ''initialize'' of
        None \<Rightarrow> (st, Inr ())
      | Some initializer \<Rightarrow>
          (if env_initialized script_env then (st, Inr ())
           else
             (case initializer (PyStr filename) (world st) of
                (w, Inl e) \<Rightarrow>
                  (emit (Call_initialize ref filename (Inl e)) (st\<lparr>world := w\<rparr>), Inl e)
              | (w, Inr v) \<Rightarrow>
                  (emit (Call_initialize ref filename (Inr v))
                     (st\<lparr>world := w,
                         scripts := (scripts st)(ref \<mapsto> script_env\<lparr>env_initialized := True\<rparr>)\<rparr>),
                   Inr ()))))"

text \<open>
  The loops over \<^verbatim>\<open>self.capture_filter_scripts\<close> (with capability
  \<^verbatim>\<open>capture_filter\<close>) and \<^verbatim>\<open>self.process_capture_scripts\<close> (with
  \<^verbatim>\<open>process_capture\<close>): the two loops of the source differ in the capability name
  only. The list built holds each function with the path of its script, which the trace
  uses. A reference always names a cached script (load_script_file stores the dictionary
  before it returns the reference, and nothing is ever removed), so the first case is
  never taken.
\<close>

fun setup_scripts ::
  "string \<Rightarrow> string \<Rightarrow> string list \<Rightarrow> (string \<times> ('w, 'c) pyfunc) list \<Rightarrow> ('w, 'c) raft \<Rightarrow>
   ('w, 'c) raft \<times> (exn + (string \<times> ('w, 'c) pyfunc) list)" where
  "setup_scripts capability filename [] acc st = (st, Inr acc)"
| "setup_scripts capability filename (ref # refs) acc st =
     (case scripts st ref of
        None \<Rightarrow> setup_scripts capability filename refs acc st
      | Some script_env \<Rightarrow>
          (case run_initializer filename ref script_env st of
             (st1, Inl e) \<Rightarrow> (st1, Inl e)
           | (st1, Inr u) \<Rightarrow>
               (case env_functions script_env capability of
                  None \<Rightarrow> setup_scripts capability filename refs acc st1
                | Some f \<Rightarrow> setup_scripts capability filename refs (acc @ [(ref, f)]) st1)))"

text \<open>The loop over \<^verbatim>\<open>filters\<close>; the result is the value of \<^verbatim>\<open>skip\<close>.\<close>

fun run_filters ::
  "(string \<times> ('w, 'c) pyfunc) list \<Rightarrow> 'c \<Rightarrow> ('w, 'c) raft \<Rightarrow> ('w, 'c) raft \<times> (exn + bool)" where
  "run_filters [] capture st = (st, Inr False)"
| "run_filters ((ref, capture_filter) # rest) capture st =
     (case capture_filter (PyCapture capture) (world st) of
        (w, Inl e) \<Rightarrow>
          (emit (Call_capture_filter ref capture (Inl e)) (st\<lparr>world := w\<rparr>), Inl e)
      | (w, Inr result) \<Rightarrow>
          (if \<not> truthy result
           then (emit (Call_capture_filter ref capture (Inr result)) (st\<lparr>world := w\<rparr>), Inr True)
           else run_filters rest capture
                  (emit (Call_capture_filter ref capture (Inr result)) (st\<lparr>world := w\<rparr>))))"

text \<open>The loop over \<^verbatim>\<open>processors\<close>.\<close>

fun run_processors ::
  "(string \<times> ('w, 'c) pyfunc) list \<Rightarrow> 'c \<Rightarrow> ('w, 'c) raft \<Rightarrow> ('w, 'c) raft \<times> (exn + unit)" where
  "run_processors [] capture st = (st, Inr ())"
| "run_processors ((ref, processor) # rest) capture st =
     (case processor (PyCapture capture) (world st) of
        (w, Inl e) \<Rightarrow>
          (emit (Call_process_capture ref capture (Inl e)) (st\<lparr>world := w\<rparr>), Inl e)
      | (w, Inr result) \<Rightarrow>
          run_processors rest capture
            (emit (Call_process_capture ref capture (Inr result)) (st\<lparr>world := w\<rparr>)))"

text \<open>The body of \<^verbatim>\<open>for result in func(filename)\<close>, for one raw record.\<close>

definition one_capture ::
  "('w, 'r, 'c) externals \<Rightarrow> (string \<times> ('w, 'c) pyfunc) list \<Rightarrow>
   (string \<times> ('w, 'c) pyfunc) list \<Rightarrow> 'r \<Rightarrow> ('w, 'c) raft \<Rightarrow> ('w, 'c) raft \<times> (exn + unit)" where
  "one_capture X filters processors result st =
     (case adapt X result of
        Inl e \<Rightarrow> (st, Inl e)
      | Inr capture \<Rightarrow>
          (case run_filters filters capture st of
             (st1, Inl e) \<Rightarrow> (st1, Inl e)
           | (st1, Inr skip) \<Rightarrow>
               (if \<not> skip then run_processors processors capture st1 else (st1, Inr ()))))"

fun capture_loop ::
  "('w, 'r, 'c) externals \<Rightarrow> (string \<times> ('w, 'c) pyfunc) list \<Rightarrow>
   (string \<times> ('w, 'c) pyfunc) list \<Rightarrow> 'r pystream \<Rightarrow> ('w, 'c) raft \<Rightarrow>
   ('w, 'c) raft \<times> (exn + unit)" where
  "capture_loop X filters processors Stop st = (st, Inr ())"
| "capture_loop X filters processors (Raise e) st = (st, Inl e)"
| "capture_loop X filters processors (Yield result rest) st =
     (case one_capture X filters processors result st of
        (st1, Inl e) \<Rightarrow> (st1, Inl e)
      | (st1, Inr u) \<Rightarrow> capture_loop X filters processors rest st1)"

text \<open>Lines 103 to 124: the message, the reset and the two set-up loops.\<close>

definition setup_file ::
  "string \<Rightarrow> ('w, 'c) raft \<Rightarrow>
   ('w, 'c) raft \<times> (exn + (string \<times> ('w, 'c) pyfunc) list \<times> (string \<times> ('w, 'c) pyfunc) list)" where
  "setup_file filename st =
     (let st0 = reset_initialized
                  (emit (StderrWrite (''processing ['' @ filename @ '']'' @ [CHR 0x0A])) st)
      in case setup_scripts ''capture_filter'' filename (capture_filter_scripts st0) [] st0 of
           (st1, Inl e) \<Rightarrow> (st1, Inl e)
         | (st1, Inr filters) \<Rightarrow>
             (case setup_scripts ''process_capture'' filename
                     (process_capture_scripts st1) [] st1 of
                (st2, Inl e) \<Rightarrow> (st2, Inl e)
              | (st2, Inr processors) \<Rightarrow> (st2, Inr (filters, processors))))"

definition parse_one_file ::
  "('w, 'r, 'c) externals \<Rightarrow> string \<Rightarrow> parser_fn \<Rightarrow> ('w, 'c) raft \<Rightarrow>
   ('w, 'c) raft \<times> (exn + unit)" where
  "parse_one_file X filename func st =
     (case setup_file filename st of
        (st2, Inl e) \<Rightarrow> (st2, Inl e)
      | (st2, Inr (filters, processors)) \<Rightarrow>
          (case capture_loop X filters processors
                  (run_parser X func filename (world st2)) st2 of
             (st3, Inl error) \<Rightarrow>
               (if isinstance_Exception error
                then (emit (Print (exn_msg error)) st3, Inl error)
                else (st3, Inl error))
           | (st3, Inr u) \<Rightarrow> (st3, Inr ())))"

section \<open>run_parse_process_loop\<close>

text \<open>
  The parsed command line, as \<^verbatim>\<open>parser.parse_args()\<close> returns it: \<open>None\<close> for an
  option that was not given.
\<close>

record args =
  arg_db :: "string option"
  arg_create :: bool
  arg_import :: bool
  arg_parse :: bool
  arg_capture_filter :: "string list option"
  arg_process_capture :: "string list option"
  arg_raft_capture_xml :: "string list option"
  arg_burp_log :: "string list option"
  arg_burp_xml :: "string list option"
  arg_burp_vuln_xml :: "string list option"
  arg_burp_state :: "string list option"
  arg_appscan_xml :: "string list option"
  arg_webscarab :: "string list option"
  arg_paros_message :: "string list option"

definition FILE_PROCESSOR_DEFINTIONS :: "(string \<times> parser_fn) list" where
  "FILE_PROCESSOR_DEFINTIONS =
     [(''raft_capture_xml'', raft_parse_xml),
      (''burp_log'', burp_parse_log),
      (''burp_xml'', burp_parse_xml),
      (''burp_vuln_xml'', burp_parse_vuln_xml),
      (''burp_state'', burp_parse_state),
      (''appscan_xml'', appscan_parse_xml),
      (''webscarab'', webscarab_parse_conversation),
      (''paros_message'', paros_parse_message)]"

text \<open>\<^verbatim>\<open>getattr(args, name)\<close> for the names of the table.\<close>

definition getattr_files :: "args \<Rightarrow> string \<Rightarrow> string list option" where
  "getattr_files a name =
     (if name = ''raft_capture_xml'' then arg_raft_capture_xml a
      else if name = ''burp_log'' then arg_burp_log a
      else if name = ''burp_xml'' then arg_burp_xml a
      else if name = ''burp_vuln_xml'' then arg_burp_vuln_xml a
      else if name = ''burp_state'' then arg_burp_state a
      else if name = ''appscan_xml'' then arg_appscan_xml a
      else if name = ''webscarab'' then arg_webscarab a
      else if name = ''paros_message'' then arg_paros_message a
      else None)"

text \<open>
  The module imports sys, argparse and os, and no module named glob: evaluating
  \<^verbatim>\<open>glob.glob(filearg)\<close> raises NameError. The local variable \<^verbatim>\<open>file_list\<close> has no
  value until one of the two branches assigns it: reading it before raises
  UnboundLocalError.
\<close>

definition NameError_glob :: exn where
  "NameError_glob = Exception ''NameError'' ''name glob is not defined''"

definition UnboundLocalError_file_list :: exn where
  "UnboundLocalError_file_list =
     Exception ''UnboundLocalError'' ''local variable file_list referenced before assignment''"

text \<open>\<^verbatim>\<open>for filename in file_list: self.parse_one_file(filename, func)\<close>.\<close>

fun file_loop ::
  "('w, 'r, 'c) externals \<Rightarrow> parser_fn \<Rightarrow> string list \<Rightarrow> ('w, 'c) raft \<Rightarrow>
   ('w, 'c) raft \<times> (exn + unit)" where
  "file_loop X func [] st = (st, Inr ())"
| "file_loop X func (filename # rest) st =
     (case parse_one_file X filename func st of
        (st1, Inl e) \<Rightarrow> (st1, Inl e)
      | (st1, Inr u) \<Rightarrow> file_loop X func rest st1)"

text \<open>
  \<^verbatim>\<open>for filearg in arg\<close>. The variable \<^verbatim>\<open>file_list\<close> is local to
  run_parse_process_loop, so its value (\<open>None\<close> while unbound) is carried from one
  iteration to the next and returned to the outer loop.
\<close>

fun filearg_loop ::
  "('w, 'r, 'c) externals \<Rightarrow> parser_fn \<Rightarrow> string list \<Rightarrow> string list option \<Rightarrow>
   ('w, 'c) raft \<Rightarrow> ('w, 'c) raft \<times> (exn + string list option)" where
  "filearg_loop X func [] file_list st = (st, Inr file_list)"
| "filearg_loop X func (filearg # rest) file_list st =
     (if CHR ''*'' \<in> set filearg then (st, Inl NameError_glob)
      else
        (case (if os_path_exists X (world st) filearg then Some [filearg] else file_list) of
           None \<Rightarrow> (st, Inl UnboundLocalError_file_list)
         | Some files \<Rightarrow>
             (case file_loop X func files st of
                (st1, Inl e) \<Rightarrow> (st1, Inl e)
              | (st1, Inr u) \<Rightarrow> filearg_loop X func rest (Some files) st1)))"

text \<open>\<^verbatim>\<open>for name, func in self.FILE_PROCESSOR_DEFINTIONS.items()\<close>.\<close>

fun format_loop ::
  "('w, 'r, 'c) externals \<Rightarrow> args \<Rightarrow> (string \<times> parser_fn) list \<Rightarrow> string list option \<Rightarrow>
   ('w, 'c) raft \<Rightarrow> ('w, 'c) raft \<times> (exn + unit)" where
  "format_loop X a [] file_list st = (st, Inr ())"
| "format_loop X a ((name, func) # rest) file_list st =
     (case getattr_files a name of
        None \<Rightarrow> format_loop X a rest file_list st
      | Some arg \<Rightarrow>
          (case filearg_loop X func arg file_list st of
             (st1, Inl e) \<Rightarrow> (st1, Inl e)
           | (st1, Inr file_list1) \<Rightarrow> format_loop X a rest file_list1 st1))"

definition run_parse_process_loop ::
  "('w, 'r, 'c) externals \<Rightarrow> args \<Rightarrow> ('w, 'c) raft \<Rightarrow> ('w, 'c) raft \<times> (exn + unit)" where
  "run_parse_process_loop X a st = format_loop X a FILE_PROCESSOR_DEFINTIONS None st"

section \<open>process_args and main\<close>

definition endswith :: "string \<Rightarrow> string \<Rightarrow> bool" where
  "endswith s suffix =
     (length suffix \<le> length s \<and> drop (length s - length suffix) s = suffix)"

text \<open>
  \<^verbatim>\<open>for filearg in arg: self.capture_filter_scripts.append(self.load_script_file(filearg))\<close>
  and the same loop for \<^verbatim>\<open>self.process_capture_scripts\<close>; \<open>to_filters\<close> tells which list
  is appended to.
\<close>

fun load_scripts ::
  "('w, 'r, 'c) externals \<Rightarrow> bool \<Rightarrow> string list \<Rightarrow> ('w, 'c) raft \<Rightarrow>
   ('w, 'c) raft \<times> (exn + unit)" where
  "load_scripts X to_filters [] st = (st, Inr ())"
| "load_scripts X to_filters (filearg # rest) st =
     (case load_script_file X filearg st of
        (st1, Inl e) \<Rightarrow> (st1, Inl e)
      | (st1, Inr ref) \<Rightarrow>
          load_scripts X to_filters rest
            (if to_filters
             then st1\<lparr>capture_filter_scripts := capture_filter_scripts st1 @ [ref]\<rparr>
             else st1\<lparr>process_capture_scripts := process_capture_scripts st1 @ [ref]\<rparr>))"

text \<open>The database check at the head of process_args: the file name tested.\<close>

definition db_filename_of :: "string \<Rightarrow> string" where
  "db_filename_of db = (if \<not> endswith db ''.raftdb'' then db @ ''.raftdb'' else db)"

definition db_missing :: "('w, 'r, 'c) externals \<Rightarrow> args \<Rightarrow> 'w \<Rightarrow> bool" where
  "db_missing X a w =
     (case arg_db a of
        None \<Rightarrow> False
      | Some db \<Rightarrow> \<not> os_path_exists X w (db_filename_of db) \<and> \<not> arg_create a)"

text \<open>
  The files of a script option: \<^verbatim>\<open>if arg is not None: for filearg in arg\<close> loops over
  nothing when the option was not given.
\<close>

definition script_args :: "string list option \<Rightarrow> string list" where
  "script_args arg = (case arg of None \<Rightarrow> [] | Some fileargs \<Rightarrow> fileargs)"

text \<open>process_args after the database check (lines 66 to 87).\<close>

definition process_args_rest ::
  "('w, 'r, 'c) externals \<Rightarrow> args \<Rightarrow> ('w, 'c) raft \<Rightarrow> ('w, 'c) raft \<times> (exn + int)" where
  "process_args_rest X a st =
     (case load_scripts X True (script_args (arg_capture_filter a))
             (st\<lparr>capture_filter_scripts := []\<rparr>) of
        (st1, Inl e) \<Rightarrow> (st1, Inl e)
      | (st1, Inr u) \<Rightarrow>
          (case load_scripts X False (script_args (arg_process_capture a))
                  (st1\<lparr>process_capture_scripts := []\<rparr>) of
             (st2, Inl e) \<Rightarrow> (st2, Inl e)
           | (st2, Inr u) \<Rightarrow>
               (if arg_import a then (st2, Inr 0)
                else if arg_parse a then
                  (case run_parse_process_loop X a st2 of
                     (st3, Inl e) \<Rightarrow> (st3, Inl e)
                   | (st3, Inr u) \<Rightarrow> (st3, Inr 0))
                else (emit (StderrWrite ([CHR 0x0A] @ ''No recognized options'' @ [CHR 0x0A])) st2,
                      Inr 0))))"

definition process_args ::
  "('w, 'r, 'c) externals \<Rightarrow> args \<Rightarrow> ('w, 'c) raft \<Rightarrow> ('w, 'c) raft \<times> (exn + int)" where
  "process_args X a st =
     (if db_missing X a (world st)
      then (emit (StderrWrite ([CHR 0x0A] @ ''DB file ['' @ db_filename_of (the (arg_db a))
                                 @ ''] does not exist'' @ [CHR 0x0A])) st, Inr 1)
      else process_args_rest X a st)"

text \<open>
  main, from the parsed arguments on. The value of process_args is dropped and main
  returns, so the interpreter ends with status 0; an exception that leaves main ends it
  with a traceback and status 1.
\<close>

definition main :: "('w, 'r, 'c) externals \<Rightarrow> args \<Rightarrow> 'w \<Rightarrow> ('w, 'c) raft \<times> int" where
  "main X a w =
     (case process_args X a
             (emit (StdoutWrite ([CHR 0x0A] @ ''RaftCmdLine - version: '' @ version X @ [CHR 0x0A]))
                (init_raft w)) of
        (st, Inl e) \<Rightarrow> (st, 1)
      | (st, Inr status) \<Rightarrow> (st, 0))"

section \<open>Reading the trace\<close>

text \<open>The events a run adds to the trace, given the states before and after it.\<close>

definition events_since :: "('w, 'c) raft \<Rightarrow> ('w, 'c) raft \<Rightarrow> 'c event list" where
  "events_since st st' = drop (length (trace st)) (trace st')"

text \<open>The calls of filter functions in a list of events: script and argument.\<close>

fun filter_calls :: "'c event list \<Rightarrow> (string \<times> 'c) list" where
  "filter_calls [] = []"
| "filter_calls (Call_capture_filter ref c res # evs) = (ref, c) # filter_calls evs"
| "filter_calls (ev # evs) = filter_calls evs"

text \<open>The outcomes of the calls of filter functions.\<close>

fun filter_results :: "'c event list \<Rightarrow> (exn + 'c pyval) list" where
  "filter_results [] = []"
| "filter_results (Call_capture_filter ref c res # evs) = res # filter_results evs"
| "filter_results (ev # evs) = filter_results evs"

fun process_calls :: "'c event list \<Rightarrow> (string \<times> 'c) list" where
  "process_calls [] = []"
| "process_calls (Call_process_capture ref c res # evs) = (ref, c) # process_calls evs"
| "process_calls (ev # evs) = process_calls evs"

text \<open>The calls of \<^verbatim>\<open>initialize\<close> functions: script and file name.\<close>

fun initialize_calls :: "'c event list \<Rightarrow> (string \<times> string) list" where
  "initialize_calls [] = []"
| "initialize_calls (Call_initialize ref filename res # evs) =
     (ref, filename) # initialize_calls evs"
| "initialize_calls (ev # evs) = initialize_calls evs"

text \<open>What \<^verbatim>\<open>print\<close> was called with.\<close>

fun printed :: "'c event list \<Rightarrow> string list" where
  "printed [] = []"
| "printed (Print s # evs) = s # printed evs"
| "printed (ev # evs) = printed evs"

text \<open>A call that returned, and returned a falsy value.\<close>

fun returned_falsy :: "exn + 'c pyval \<Rightarrow> bool" where
  "returned_falsy (Inl e) = False"
| "returned_falsy (Inr v) = (\<not> truthy v)"

text \<open>
  The scripts among \<open>refs\<close>, in order, whose \<^verbatim>\<open>functions\<close> dictionary has the
  capability.
\<close>

definition has_capability :: "('w, 'c) raft \<Rightarrow> string \<Rightarrow> string \<Rightarrow> bool" where
  "has_capability st capability ref =
     (case scripts st ref of
        None \<Rightarrow> False
      | Some script_env \<Rightarrow> env_functions script_env capability \<noteq> None)"

section \<open>Shapes of the events of the two inner loops\<close>

text \<open>
  The events of a run of the filter loop on capture \<open>c\<close>: one call per outcome, of the
  filters in list order; likewise for the processor loop.
\<close>

definition filter_events ::
  "'c \<Rightarrow> (string \<times> ('w, 'c) pyfunc) list \<Rightarrow> (exn + 'c pyval) list \<Rightarrow> 'c event list" where
  "filter_events c fs ress =
     map (\<lambda>(rf, res). Call_capture_filter (fst rf) c res) (zip fs ress)"

definition process_events ::
  "'c \<Rightarrow> (string \<times> ('w, 'c) pyfunc) list \<Rightarrow> (exn + 'c pyval) list \<Rightarrow> 'c event list" where
  "process_events c ps ress =
     map (\<lambda>(rf, res). Call_process_capture (fst rf) c res) (zip ps ress)"

definition all_truthy :: "(exn + 'c pyval) list \<Rightarrow> bool" where
  "all_truthy ress = (\<forall>res \<in> set ress. \<exists>v. res = Inr v \<and> truthy v)"

section \<open>The chaining of filters, as the specification words it\<close>

text \<open>
  The specification has the value returned by filter k, when truthy, passed to filter
  k+1. On the arguments and the outcomes of the filter calls made for one record: a call
  that is followed by another returned the capture that the next call received.
\<close>

fun spec_chained :: "'c list \<Rightarrow> (exn + 'c pyval) list \<Rightarrow> bool" where
  "spec_chained (c1 # c2 # cs) (res # ress) =
     (res = Inr (PyCapture c2) \<and> spec_chained (c2 # cs) ress)"
| "spec_chained cs ress = True"

section \<open>Sample plugins\<close>

text \<open>
  Plugin functions over captures that are numbers, in a world that counts the calls made:
  one that returns its argument, one that returns another capture, one that returns None
  and one that raises.
\<close>

definition demo_keep :: "(nat, nat) pyfunc" where
  "demo_keep v w = (Suc w, Inr v)"

definition demo_rewrite :: "(nat, nat) pyfunc" where
  "demo_rewrite v w = (Suc w, Inr (PyCapture 1))"

definition demo_drop :: "(nat, nat) pyfunc" where
  "demo_drop v w = (Suc w, Inr PyNone)"

definition demo_raise :: "(nat, nat) pyfunc" where
  "demo_raise v w = (Suc w, Inl (Exception ''ValueError'' ''bad capture''))"

definition demo_rewrite_keep :: "(string \<times> (nat, nat) pyfunc) list" where
  "demo_rewrite_keep = [(''rewrite.py'', demo_rewrite), (''keep.py'', demo_keep)]"

section \<open>Relations between the states before and after a run\<close>

text \<open>The trace after the run is the trace before it with the events of the run appended.\<close>

definition trace_grows :: "('w, 'c) raft \<Rightarrow> ('w, 'c) raft \<Rightarrow> bool" where
  "trace_grows st st' = (trace st' = trace st @ events_since st st')"

text \<open>
  The run left the two script lists as they were, and the \<^verbatim>\<open>functions\<close> dictionary of
  every script too.
\<close>

definition same_plugins :: "('w, 'c) raft \<Rightarrow> ('w, 'c) raft \<Rightarrow> bool" where
  "same_plugins st st' =
     (capture_filter_scripts st' = capture_filter_scripts st \<and>
      process_capture_scripts st' = process_capture_scripts st \<and>
      map_option env_functions \<circ> scripts st' = map_option env_functions \<circ> scripts st)"

text \<open>The \<^verbatim>\<open>initialized\<close> flag of a script.\<close>

definition is_initialized :: "('w, 'c) raft \<Rightarrow> string \<Rightarrow> bool" where
  "is_initialized st ref =
     (case scripts st ref of None \<Rightarrow> False | Some script_env \<Rightarrow> env_initialized script_env)"

text \<open>How many times the \<^verbatim>\<open>initialize\<close> function of a script was called.\<close>

definition initialize_count :: "string \<Rightarrow> 'c event list \<Rightarrow> nat" where
  "initialize_count ref evs = length (filter (\<lambda>call. fst call = ref) (initialize_calls evs))"

text \<open>
  The state at the head of the first set-up loop of parse_one_file: the message is written
  and every flag is reset.
\<close>

definition file_start :: "string \<Rightarrow> ('w, 'c) raft \<Rightarrow> ('w, 'c) raft" where
  "file_start filename st =
     reset_initialized (emit (StderrWrite (''processing ['' @ filename @ '']'' @ [CHR 0x0A])) st)"

text \<open>A filter that returns None for an odd capture and the capture itself for an even one.\<close>

definition demo_drop_odd :: "(nat, nat) pyfunc" where
  "demo_drop_odd v w =
     (Suc w, Inr (case v of PyCapture c \<Rightarrow> if odd c then PyNone else PyCapture c | _ \<Rightarrow> PyNone))"

text \<open>
  Sample collaborators. Four script files exist: both.py defines the three capabilities
  as functions, store.py defines \<^verbatim>\<open>process_capture\<close> only, strict.py defines a
  \<^verbatim>\<open>capture_filter\<close> that raises for the capture 2, bad.py does not compile. Every
  parser yields the records 1, 2 and 3 for a.xml, the records 1 to 5 for five.xml, and
  fails after the record 2 for broken.xml; the adapter takes a record as its capture. No
  database file exists.
\<close>

definition demo_source :: "string \<Rightarrow> string" where
  "demo_source path = ''source of '' @ path"

text \<open>A filter that raises for the capture 2 and returns any other capture.\<close>

definition demo_raise_on_2 :: "(nat, nat) pyfunc" where
  "demo_raise_on_2 v w =
     (Suc w, if v = PyCapture 2 then Inl (Exception ''ValueError'' ''bad capture'') else Inr v)"

definition demo_namespace :: "string \<Rightarrow> (nat, nat) namespace" where
  "demo_namespace src =
     (if src = demo_source ''both.py''
      then [(''initialize'', FunctionObj demo_keep),
            (''capture_filter'', FunctionObj demo_drop_odd),
            (''process_capture'', FunctionObj demo_keep),
            (''limit'', DataObj)]
      else if src = demo_source ''store.py''
      then [(''process_capture'', FunctionObj demo_keep)]
      else if src = demo_source ''strict.py''
      then [(''capture_filter'', FunctionObj demo_raise_on_2)]
      else [])"

definition demo_externals :: "(nat, nat, nat) externals" where
  "demo_externals =
     \<lparr>os_path_exists = (\<lambda>w path. path \<in> set [''both.py'', ''store.py'', ''strict.py'',
                                               ''bad.py'', ''a.xml'', ''five.xml'', ''broken.xml'']),
      open_read = (\<lambda>w path.
         if path \<in> set [''both.py'', ''store.py'', ''strict.py'', ''bad.py'']
         then Inr (demo_source path)
         else Inl (Exception ''FileNotFoundError'' path)),
      py_compile = (\<lambda>src.
         if src = demo_source ''bad.py''
         then Inl (Exception ''SyntaxError'' ''invalid syntax'')
         else Inr (Code src)),
      py_exec = (\<lambda>compiled w. case compiled of Code src \<Rightarrow> (Suc w, Inr (demo_namespace src))),
      run_parser = (\<lambda>func filename w.
         if filename = ''broken.xml''
         then Yield 1 (Yield 2 (Raise (Exception ''ParseError'' ''truncated file'')))
         else if filename = ''five.xml''
         then Yield 1 (Yield 2 (Yield 3 (Yield 4 (Yield 5 Stop))))
         else Yield 1 (Yield 2 (Yield 3 Stop))),
      adapt = (\<lambda>result. Inr result),
      version = ''3.0''\<rparr>"

definition demo_args :: args where
  "demo_args =
     \<lparr>arg_db = None, arg_create = False, arg_import = False, arg_parse = True,
      arg_capture_filter = Some [''both.py''],
      arg_process_capture = Some [''store.py'', ''both.py''],
      arg_raft_capture_xml = Some [''a.xml''],
      arg_burp_log = None, arg_burp_xml = None, arg_burp_vuln_xml = None,
      arg_burp_state = None, arg_appscan_xml = None, arg_webscarab = None,
      arg_paros_message = None\<rparr>"

text \<open>
  The object after \<^verbatim>\<open>--capture-filter both.py --process-capture store.py both.py\<close> has
  been loaded with the sample collaborators.
\<close>

definition demo_loaded :: "(nat, nat) raft" where
  "demo_loaded =
     \<lparr>world = 2,
      trace = [OpenRead ''both.py'', Compile ''both.py'', Exec ''both.py'',
               OpenRead ''store.py'', Compile ''store.py'', Exec ''store.py''],
      scripts =
        [''both.py'' \<mapsto>
           \<lparr>env_filename = ''both.py'', env_valid = True, env_initialized = False,
            env_instance = None,
            env_functions = [''initialize'' \<mapsto> demo_keep, ''capture_filter'' \<mapsto> demo_drop_odd,
                             ''process_capture'' \<mapsto> demo_keep],
            env_local_ns = demo_namespace (demo_source ''both.py'')\<rparr>,
         ''store.py'' \<mapsto>
           \<lparr>env_filename = ''store.py'', env_valid = True, env_initialized = False,
            env_instance = None,
            env_functions = [''process_capture'' \<mapsto> demo_keep],
            env_local_ns = demo_namespace (demo_source ''store.py'')\<rparr>],
      capture_filter_scripts = [''both.py''],
      process_capture_scripts = [''store.py'', ''both.py'']\<rparr>"

section \<open>One pull of the record stream, and what was logged\<close>

text \<open>
  One iteration of \<^verbatim>\<open>for result in func(filename)\<close>: the generator ends, raises, or
  yields a record that goes through the body of the loop.
\<close>

fun pull_one ::
  "('w, 'r, 'c) externals \<Rightarrow> (string \<times> ('w, 'c) pyfunc) list \<Rightarrow>
   (string \<times> ('w, 'c) pyfunc) list \<Rightarrow> 'r pystream \<Rightarrow> ('w, 'c) raft \<Rightarrow>
   ('w, 'c) raft \<times> (exn + unit)" where
  "pull_one X filters processors Stop st = (st, Inr ())"
| "pull_one X filters processors (Raise e) st = (st, Inl e)"
| "pull_one X filters processors (Yield result rest) st =
     one_capture X filters processors result st"

text \<open>
  The events of a run that ended with \<open>r\<close>: nothing was printed, or the run raised, printed
  the message of the exception it raised, once, and did nothing after that.
\<close>

definition logged_last :: "'c event list \<Rightarrow> exn + 'a \<Rightarrow> bool" where
  "logged_last evs r =
     (case r of
        Inr v \<Rightarrow> printed evs = []
      | Inl e \<Rightarrow> printed evs = [] \<or>
                 (printed evs = [exn_msg e] \<and> evs \<noteq> [] \<and> last evs = Print (exn_msg e)))"

text \<open>
  What every loop of run_parse_process_loop keeps: the trace grows, the plugins stay, an
  error is logged last, and the filter and processor functions called belong to scripts
  of the matching list.
\<close>

definition run_inv :: "('w, 'c) raft \<Rightarrow> ('w, 'c) raft \<Rightarrow> exn + 'a \<Rightarrow> bool" where
  "run_inv st st' r =
     (trace_grows st st' \<and> same_plugins st st' \<and> logged_last (events_since st st') r \<and>
      fst ` set (filter_calls (events_since st st')) \<subseteq> set (capture_filter_scripts st) \<and>
      fst ` set (process_calls (events_since st st')) \<subseteq> set (process_capture_scripts st))"

text \<open>No plugin function is called in a list of events.\<close>

definition no_calls :: "'c event list \<Rightarrow> bool" where
  "no_calls evs =
     (filter_calls evs = [] \<and> process_calls evs = [] \<and> initialize_calls evs = [])"

text \<open>
  What loading keeps: the trace grows, no plugin function is called, and an error is
  logged last.
\<close>

definition load_inv :: "('w, 'c) raft \<Rightarrow> ('w, 'c) raft \<Rightarrow> exn + 'a \<Rightarrow> bool" where
  "load_inv st st' r =
     (trace_grows st st' \<and> no_calls (events_since st st') \<and>
      logged_last (events_since st st') r)"

text \<open>
  The command line \<^verbatim>\<open>--parse --capture-filter both.py --process-capture store.py
  --raft-capture-xml a.xml\<close>: both.py, which also defines \<^verbatim>\<open>process_capture\<close>, is
  registered as a filter only.
\<close>

definition demo_args_filter_only :: args where
  "demo_args_filter_only = demo_args\<lparr>arg_process_capture := Some [''store.py'']\<rparr>"

text \<open>
  The command line \<^verbatim>\<open>--parse --capture-filter strict.py --process-capture store.py
  --raft-capture-xml five.xml a.xml\<close>, and the object after its two scripts have been
  loaded.
\<close>

definition demo_args_strict :: args where
  "demo_args_strict =
     demo_args\<lparr>arg_capture_filter := Some [''strict.py''],
               arg_process_capture := Some [''store.py''],
               arg_raft_capture_xml := Some [''five.xml'', ''a.xml'']\<rparr>"

definition demo_loaded_strict :: "(nat, nat) raft" where
  "demo_loaded_strict =
     \<lparr>world = 2,
      trace = [OpenRead ''strict.py'', Compile ''strict.py'', Exec ''strict.py'',
               OpenRead ''store.py'', Compile ''store.py'', Exec ''store.py''],
      scripts =
        [''strict.py'' \<mapsto>
           \<lparr>env_filename = ''strict.py'', env_valid = True, env_initialized = False,
            env_instance = None,
            env_functions = [''capture_filter'' \<mapsto> demo_raise_on_2],
            env_local_ns = demo_namespace (demo_source ''strict.py'')\<rparr>,
         ''store.py'' \<mapsto>
           \<lparr>env_filename = ''store.py'', env_valid = True, env_initialized = False,
            env_instance = None,
            env_functions = [''process_capture'' \<mapsto> demo_keep],
            env_local_ns = demo_namespace (demo_source ''store.py'')\<rparr>],
      capture_filter_scripts = [''strict.py''],
      process_capture_scripts = [''store.py'']\<rparr>"

section \<open>The error of a failed load, as the specification words it\<close>

text \<open>
  The specification has a failed load raise a PluginLoadError that carries the path and
  the cause. The least this asks of the exception raised is its class.
\<close>

definition spec_is_PluginLoadError :: "exn \<Rightarrow> bool" where
  "spec_is_PluginLoadError e = (exn_class e = ''PluginLoadError'')"

section \<open>The calls of a loop over plugin functions, told apart from the loop\<close>

text \<open>
  What calling every function of a list would give, each with the same argument and in
  the world that the call before it left: for each function its script, the outcome of
  the call and the world after it.
\<close>

fun call_each ::
  "(string \<times> ('w, 'c) pyfunc) list \<Rightarrow> 'c pyval \<Rightarrow> 'w \<Rightarrow>
   (string \<times> (exn + 'c pyval) \<times> 'w) list" where
  "call_each [] v w = []"
| "call_each ((ref, f) # fs) v w =
     (ref, snd (f v w), fst (f v w)) # call_each fs v (fst (f v w))"

text \<open>A call that returned; a call that returned a truthy value.\<close>

definition returned :: "string \<times> (exn + 'c pyval) \<times> 'w \<Rightarrow> bool" where
  "returned out = (case fst (snd out) of Inl e \<Rightarrow> False | Inr v \<Rightarrow> True)"

definition passed :: "string \<times> (exn + 'c pyval) \<times> 'w \<Rightarrow> bool" where
  "passed out = (case fst (snd out) of Inl e \<Rightarrow> False | Inr v \<Rightarrow> truthy v)"

text \<open>
  The calls made by a loop that goes on while \<open>p\<close> holds of the call just made: those for
  which \<open>p\<close> holds, and the first one for which it does not, if there is one.
\<close>

definition calls_until ::
  "('a \<Rightarrow> bool) \<Rightarrow> 'a list \<Rightarrow> 'a list" where
  "calls_until p outs = takeWhile p outs @ take 1 (dropWhile p outs)"

text \<open>The world after the calls made: that of the last call, if any call was made.\<close>

definition world_after :: "'w \<Rightarrow> (string \<times> (exn + 'c pyval) \<times> 'w) list \<Rightarrow> 'w" where
  "world_after w made = (if made = [] then w else snd (snd (last made)))"

text \<open>
  The state after the calls made: the world is the one they left and the trace has one
  event per call.
\<close>

definition after_calls ::
  "(string \<times> (exn + 'c pyval) \<times> 'w \<Rightarrow> 'c event) \<Rightarrow> (string \<times> (exn + 'c pyval) \<times> 'w) list \<Rightarrow>
   ('w, 'c) raft \<Rightarrow> ('w, 'c) raft" where
  "after_calls event made st =
     st\<lparr>world := world_after (world st) made, trace := trace st @ map event made\<rparr>"

definition filter_event :: "'c \<Rightarrow> string \<times> (exn + 'c pyval) \<times> 'w \<Rightarrow> 'c event" where
  "filter_event c out = Call_capture_filter (fst out) c (fst (snd out))"

definition process_event :: "'c \<Rightarrow> string \<times> (exn + 'c pyval) \<times> 'w \<Rightarrow> 'c event" where
  "process_event c out = Call_process_capture (fst out) c (fst (snd out))"

definition initialize_event :: "string \<Rightarrow> string \<times> (exn + 'c pyval) \<times> 'w \<Rightarrow> 'c event" where
  "initialize_event filename out = Call_initialize (fst out) filename (fst (snd out))"

text \<open>
  The filters of one record, as the amended C1 has them: every filter is given the
  adapted capture; the calls go on while the value returned is truthy; the record is
  skipped when a call returns a falsy value, and the error is raised when a call raises.
\<close>

definition spec_filters ::
  "(string \<times> ('w, 'c) pyfunc) list \<Rightarrow> 'c \<Rightarrow> ('w, 'c) raft \<Rightarrow> ('w, 'c) raft \<times> (exn + bool)" where
  "spec_filters filters capture st =
     (after_calls (filter_event capture)
        (calls_until passed (call_each filters (PyCapture capture) (world st))) st,
      (case dropWhile passed (call_each filters (PyCapture capture) (world st)) of
         [] \<Rightarrow> Inr False
       | out # outs \<Rightarrow> (case fst (snd out) of Inl e \<Rightarrow> Inl e | Inr v \<Rightarrow> Inr True)))"

text \<open>
  The processors of one record: every processor is given the same capture; the calls go
  on until one raises.
\<close>

definition spec_processors ::
  "(string \<times> ('w, 'c) pyfunc) list \<Rightarrow> 'c \<Rightarrow> ('w, 'c) raft \<Rightarrow> ('w, 'c) raft \<times> (exn + unit)" where
  "spec_processors processors capture st =
     (after_calls (process_event capture)
        (calls_until returned (call_each processors (PyCapture capture) (world st))) st,
      (case dropWhile returned (call_each processors (PyCapture capture) (world st)) of
         [] \<Rightarrow> Inr ()
       | out # outs \<Rightarrow> (case fst (snd out) of Inl e \<Rightarrow> Inl e | Inr v \<Rightarrow> Inr ())))"

text \<open>
  One record, as C2 has it: when a filter call returns a falsy value no processor is
  called and the record is done; when every filter call returns a truthy value every
  processor is called with the capture the filters were given.
\<close>

definition spec_record ::
  "(string \<times> ('w, 'c) pyfunc) list \<Rightarrow> (string \<times> ('w, 'c) pyfunc) list \<Rightarrow> 'c \<Rightarrow>
   ('w, 'c) raft \<Rightarrow> ('w, 'c) raft \<times> (exn + unit)" where
  "spec_record filters processors capture st =
     (case spec_filters filters capture st of
        (st1, Inl e) \<Rightarrow> (st1, Inl e)
      | (st1, Inr skip) \<Rightarrow>
          (if skip then (st1, Inr ()) else spec_processors processors capture st1))"

text \<open>
  The records of a file, in stream order: each one is adapted and goes through
  \<open>spec_record\<close> in the state the record before it left; an error ends the file.
\<close>

fun spec_records ::
  "('w, 'r, 'c) externals \<Rightarrow> (string \<times> ('w, 'c) pyfunc) list \<Rightarrow>
   (string \<times> ('w, 'c) pyfunc) list \<Rightarrow> 'r list \<Rightarrow> ('w, 'c) raft \<Rightarrow>
   ('w, 'c) raft \<times> (exn + unit)" where
  "spec_records X filters processors [] st = (st, Inr ())"
| "spec_records X filters processors (result # results) st =
     (case adapt X result of
        Inl e \<Rightarrow> (st, Inl e)
      | Inr capture \<Rightarrow>
          (case spec_record filters processors capture st of
             (st1, Inl e) \<Rightarrow> (st1, Inl e)
           | (st1, Inr u) \<Rightarrow> spec_records X filters processors results st1))"

text \<open>
  The functions that the scripts of a list of references have under a capability name, in
  the order of the list, each with its script.
\<close>

fun capability_functions ::
  "('w, 'c) raft \<Rightarrow> string \<Rightarrow> string list \<Rightarrow> (string \<times> ('w, 'c) pyfunc) list" where
  "capability_functions st capability [] = []"
| "capability_functions st capability (ref # refs) =
     (case scripts st ref of
        None \<Rightarrow> capability_functions st capability refs
      | Some script_env \<Rightarrow>
          (case env_functions script_env capability of
             None \<Rightarrow> capability_functions st capability refs
           | Some f \<Rightarrow> (ref, f) # capability_functions st capability refs))"

text \<open>
  Lines 66 to 78 of process_args: the two lists are emptied and filled, the filters
  first, from the two options of the command line.
\<close>

definition load_all ::
  "('w, 'r, 'c) externals \<Rightarrow> args \<Rightarrow> ('w, 'c) raft \<Rightarrow> ('w, 'c) raft \<times> (exn + unit)" where
  "load_all X a st =
     (case load_scripts X True (script_args (arg_capture_filter a))
             (st\<lparr>capture_filter_scripts := []\<rparr>) of
        (st1, Inl e) \<Rightarrow> (st1, Inl e)
      | (st1, Inr u) \<Rightarrow>
          load_scripts X False (script_args (arg_process_capture a))
            (st1\<lparr>process_capture_scripts := []\<rparr>))"

text \<open>Two filters, of which the first returns None, and one processor.\<close>

definition demo_drop_keep :: "(string \<times> (nat, nat) pyfunc) list" where
  "demo_drop_keep = [(''drop.py'', demo_drop), (''keep.py'', demo_keep)]"

definition demo_store :: "(string \<times> (nat, nat) pyfunc) list" where
  "demo_store = [(''store.py'', demo_keep)]"

section \<open>The set-up of a file, as C5 has it\<close>

text \<open>The elements of a list in the order of their first occurrences, each once.\<close>

fun first_occurrences :: "'a list \<Rightarrow> 'a list" where
  "first_occurrences [] = []"
| "first_occurrences (x # xs) = x # filter (\<lambda>y. y \<noteq> x) (first_occurrences xs)"

text \<open>The dictionaries of \<^verbatim>\<open>self.scripts\<close> with the flag set for the scripts of \<open>S\<close>.\<close>

definition mark_initialized ::
  "string set \<Rightarrow> (string \<rightharpoonup> ('w, 'c) script_env) \<Rightarrow> (string \<rightharpoonup> ('w, 'c) script_env)" where
  "mark_initialized S m =
     (\<lambda>key. map_option (\<lambda>script_env. if key \<in> S then script_env\<lparr>env_initialized := True\<rparr>
                                     else script_env) (m key))"

text \<open>The registered scripts whose flag is not set, each once, in the order of the list.\<close>

definition pending :: "('w, 'c) raft \<Rightarrow> string list \<Rightarrow> string list" where
  "pending st refs = filter (\<lambda>ref. \<not> is_initialized st ref) (first_occurrences refs)"

text \<open>
  The \<^verbatim>\<open>initialize\<close> functions of the registered scripts: one for each script that has
  one, whether the script is registered as a filter, as a processor or as both, once or
  several times, in the order in which the scripts first appear, the filters first.
\<close>

definition spec_initializers :: "('w, 'c) raft \<Rightarrow> (string \<times> ('w, 'c) pyfunc) list" where
  "spec_initializers st =
     capability_functions st ''initialize''
       (first_occurrences (capture_filter_scripts st @ process_capture_scripts st))"

text \<open>
  The state after the functions of \<open>inits\<close> have been called with the file name, until
  one raises: the world and the trace are those after the calls made, and the flag is
  set for the scripts whose function returned.
\<close>

definition initialized_state ::
  "string \<Rightarrow> (string \<times> ('w, 'c) pyfunc) list \<Rightarrow> ('w, 'c) raft \<Rightarrow> ('w, 'c) raft" where
  "initialized_state filename inits st =
     (after_calls (initialize_event filename)
        (calls_until returned (call_each inits (PyStr filename) (world st))) st)
       \<lparr>scripts :=
          mark_initialized
            (fst ` set (takeWhile returned (call_each inits (PyStr filename) (world st))))
            (scripts st)\<rparr>"

text \<open>The error of the first of these calls that raises, if one does.\<close>

definition initialize_error ::
  "string \<Rightarrow> (string \<times> ('w, 'c) pyfunc) list \<Rightarrow> 'w \<Rightarrow> exn option" where
  "initialize_error filename inits w =
     (case dropWhile returned (call_each inits (PyStr filename) w) of
        [] \<Rightarrow> None
      | out # outs \<Rightarrow> Some (projl (fst (snd out))))"

text \<open>
  The set-up of a file: the message is written and every flag is reset; every function
  of \<open>spec_initializers\<close> is called with the file name, until one raises; the flag is set
  for the scripts whose function returned. The set-up gives the filters and the
  processors, or raises the error of the function that raised.
\<close>

definition spec_setup ::
  "string \<Rightarrow> ('w, 'c) raft \<Rightarrow>
   ('w, 'c) raft \<times> (exn + (string \<times> ('w, 'c) pyfunc) list \<times> (string \<times> ('w, 'c) pyfunc) list)" where
  "spec_setup filename st =
     (initialized_state filename (spec_initializers st) (file_start filename st),
      (case initialize_error filename (spec_initializers st) (world st) of
         None \<Rightarrow> Inr (capability_functions st ''capture_filter'' (capture_filter_scripts st),
                     capability_functions st ''process_capture'' (process_capture_scripts st))
       | Some e \<Rightarrow> Inl e))"

section \<open>Lemmas on the trace\<close>

lemma filter_calls_append: "filter_calls (xs @ ys) = filter_calls xs @ filter_calls ys"
  by (induction xs rule: filter_calls.induct) auto
lemma filter_results_append: "filter_results (xs @ ys) = filter_results xs @ filter_results ys"
  by (induction xs rule: filter_results.induct) auto
lemma process_calls_append: "process_calls (xs @ ys) = process_calls xs @ process_calls ys"
  by (induction xs rule: process_calls.induct) auto
lemma initialize_calls_append: "initialize_calls (xs @ ys) = initialize_calls xs @ initialize_calls ys"
  by (induction xs rule: initialize_calls.induct) auto
lemma printed_append: "printed (xs @ ys) = printed xs @ printed ys"
  by (induction xs rule: printed.induct) auto

lemma filter_events_Nil [simp]: "filter_events c [] ress = []" "filter_events c fs [] = []"
  by (simp_all add: filter_events_def)
lemma filter_events_Cons [simp]:
  "filter_events c (rf # fs) (res # ress) = Call_capture_filter (fst rf) c res # filter_events c fs ress"
  by (simp add: filter_events_def)
lemma process_events_Nil [simp]: "process_events c [] ress = []" "process_events c fs [] = []"
  by (simp_all add: process_events_def)
lemma process_events_Cons [simp]:
  "process_events c (rf # fs) (res # ress) = Call_process_capture (fst rf) c res # process_events c fs ress"
  by (simp add: process_events_def)

lemma filter_calls_filter_events:
  "filter_calls (filter_events c fs ress) = map (\<lambda>rf. (fst rf, c)) (take (length ress) fs)"
proof (induction fs arbitrary: ress)
  case Nil then show ?case by simp
next
  case (Cons rf fs) then show ?case by (cases ress) simp_all
qed

lemma filter_results_filter_events:
  "length ress \<le> length fs \<Longrightarrow> filter_results (filter_events c fs ress) = ress"
proof (induction fs arbitrary: ress)
  case Nil then show ?case by simp
next
  case (Cons rf fs) then show ?case by (cases ress) simp_all
qed

lemma other_filter_events:
  "process_calls (filter_events c fs ress) = []"
  "initialize_calls (filter_events c fs ress) = []"
  "printed (filter_events c fs ress) = []"
proof (induction fs arbitrary: ress)
  case Nil
  { case 1 show ?case by simp }
  { case 2 show ?case by simp }
  { case 3 show ?case by simp }
next
  case (Cons rf fs)
  { case 1 show ?case using Cons.IH(1) by (cases ress) simp_all }
  { case 2 show ?case using Cons.IH(2) by (cases ress) simp_all }
  { case 3 show ?case using Cons.IH(3) by (cases ress) simp_all }
qed

lemma run_filters_shape:
  "run_filters fs c st = (st', r) \<Longrightarrow>
   \<exists>ress. length ress \<le> length fs \<and>
          trace st' = trace st @ filter_events c fs ress \<and> scripts st' = scripts st \<and>
          capture_filter_scripts st' = capture_filter_scripts st \<and>
          process_capture_scripts st' = process_capture_scripts st \<and>
          (case r of
             Inr skip \<Rightarrow> if skip then ress \<noteq> [] \<and> all_truthy (butlast ress) \<and> returned_falsy (last ress)
                         else length ress = length fs \<and> all_truthy ress
           | Inl e \<Rightarrow> ress \<noteq> [] \<and> all_truthy (butlast ress) \<and> last ress = Inl e)"
proof (induction fs arbitrary: st)
  case Nil
  then show ?case by (auto simp: all_truthy_def)
next
  case (Cons a fs)
  obtain ref f where a: "a = (ref, f)" by (cases a)
  obtain w res where call: "f (PyCapture c) (world st) = (w, res)" by (cases "f (PyCapture c) (world st)")
  let ?st1 = "emit (Call_capture_filter ref c res) (st\<lparr>world := w\<rparr>)"
  show ?case
  proof (cases res)
    case (Inl e)
    with Cons.prems call a have "st' = ?st1" "r = Inl e" by auto
    then show ?thesis using Inl a
      by (intro exI[of _ "[Inl e]"]) (simp add: emit_def all_truthy_def)
  next
    case (Inr v)
    show ?thesis
    proof (cases "truthy v")
      case False
      with Cons.prems call a Inr have "st' = ?st1" "r = Inr True" by auto
      then show ?thesis using Inr a False
        by (intro exI[of _ "[Inr v]"]) (simp add: emit_def all_truthy_def)
    next
      case True
      with Cons.prems call a Inr have "run_filters fs c ?st1 = (st', r)" by auto
      from Cons.IH[OF this] obtain ress where
        len: "length ress \<le> length fs" and
        st': "trace st' = trace ?st1 @ filter_events c fs ress" "scripts st' = scripts ?st1"
          "capture_filter_scripts st' = capture_filter_scripts ?st1"
          "process_capture_scripts st' = process_capture_scripts ?st1" and
        rr: "(case r of
             Inr skip \<Rightarrow> if skip then ress \<noteq> [] \<and> all_truthy (butlast ress) \<and> returned_falsy (last ress)
                         else length ress = length fs \<and> all_truthy ress
           | Inl e \<Rightarrow> ress \<noteq> [] \<and> all_truthy (butlast ress) \<and> last ress = Inl e)" by blast
      have 1: "length (Inr v # ress) \<le> length (a # fs)" using len by simp
      have 2: "trace st' = trace st @ filter_events c (a # fs) (Inr v # ress)" "scripts st' = scripts st"
          "capture_filter_scripts st' = capture_filter_scripts st"
          "process_capture_scripts st' = process_capture_scripts st"
        using st' a Inr by (simp_all add: emit_def)
      have 3: "(case r of
             Inr skip \<Rightarrow> if skip then (Inr v # ress) \<noteq> [] \<and> all_truthy (butlast (Inr v # ress)) \<and> returned_falsy (last (Inr v # ress))
                         else length (Inr v # ress) = length (a # fs) \<and> all_truthy (Inr v # ress)
           | Inl e \<Rightarrow> (Inr v # ress) \<noteq> [] \<and> all_truthy (butlast (Inr v # ress)) \<and> last (Inr v # ress) = Inl e)"
        using rr True by (auto simp: all_truthy_def split: sum.splits if_splits)
      show ?thesis using 1 2 3 by blast
    qed
  qed
qed


lemma process_calls_process_events:
  "process_calls (process_events c fs ress) = map (\<lambda>rf. (fst rf, c)) (take (length ress) fs)"
proof (induction fs arbitrary: ress)
  case Nil then show ?case by simp
next
  case (Cons rf fs) then show ?case by (cases ress) simp_all
qed

lemma other_process_events:
  "filter_calls (process_events c fs ress) = []"
  "filter_results (process_events c fs ress) = []"
  "initialize_calls (process_events c fs ress) = []"
  "printed (process_events c fs ress) = []"
proof (induction fs arbitrary: ress)
  case Nil
  { case 1 show ?case by simp }
  { case 2 show ?case by simp }
  { case 3 show ?case by simp }
  { case 4 show ?case by simp }
next
  case (Cons rf fs)
  { case 1 show ?case using Cons.IH(1) by (cases ress) simp_all }
  { case 2 show ?case using Cons.IH(2) by (cases ress) simp_all }
  { case 3 show ?case using Cons.IH(3) by (cases ress) simp_all }
  { case 4 show ?case using Cons.IH(4) by (cases ress) simp_all }
qed

lemma run_processors_shape:
  "run_processors ps c st = (st', r) \<Longrightarrow>
   \<exists>ress. length ress \<le> length ps \<and>
          trace st' = trace st @ process_events c ps ress \<and> scripts st' = scripts st \<and>
          capture_filter_scripts st' = capture_filter_scripts st \<and>
          process_capture_scripts st' = process_capture_scripts st \<and>
          (r = Inr () \<longrightarrow> length ress = length ps)"
proof (induction ps arbitrary: st)
  case Nil
  then show ?case by auto
next
  case (Cons a ps)
  obtain ref f where a: "a = (ref, f)" by (cases a)
  obtain w res where call: "f (PyCapture c) (world st) = (w, res)" by (cases "f (PyCapture c) (world st)")
  let ?st1 = "emit (Call_process_capture ref c res) (st\<lparr>world := w\<rparr>)"
  show ?case
  proof (cases res)
    case (Inl e)
    with Cons.prems call a have "st' = ?st1" "r = Inl e" by auto
    then show ?thesis using Inl a
      by (intro exI[of _ "[Inl e]"]) (simp add: emit_def)
  next
    case (Inr v)
    with Cons.prems call a have "run_processors ps c ?st1 = (st', r)" by auto
    from Cons.IH[OF this] obtain ress where
        len: "length ress \<le> length ps" and
        st': "trace st' = trace ?st1 @ process_events c ps ress" "scripts st' = scripts ?st1"
          "capture_filter_scripts st' = capture_filter_scripts ?st1"
          "process_capture_scripts st' = process_capture_scripts ?st1" and
        rr: "r = Inr () \<longrightarrow> length ress = length ps" by blast
    have 1: "length (Inr v # ress) \<le> length (a # ps)" using len by simp
    have 2: "trace st' = trace st @ process_events c (a # ps) (Inr v # ress)" "scripts st' = scripts st"
          "capture_filter_scripts st' = capture_filter_scripts st"
          "process_capture_scripts st' = process_capture_scripts st"
        using st' a Inr by (simp_all add: emit_def)
    have 3: "r = Inr () \<longrightarrow> length (Inr v # ress) = length (a # ps)" using rr by simp
    show ?thesis using 1 2 3 by blast
  qed
qed

lemma events_since_append: "trace st' = trace st @ new \<Longrightarrow> events_since st st' = new"
  by (simp add: events_since_def)

lemma all_truthy_no_falsy: "all_truthy ress \<Longrightarrow> res \<in> set ress \<Longrightarrow> \<not> returned_falsy res"
  by (auto simp: all_truthy_def)

section \<open>Frames: what a run leaves unchanged\<close>

lemma trace_grows_refl: "trace_grows st st"
  by (simp add: trace_grows_def events_since_def)

lemma trace_growsI: "trace st' = trace st @ new \<Longrightarrow> trace_grows st st'"
  by (simp add: trace_grows_def events_since_def)

lemma trace_grows_trans:
  assumes "trace_grows st st1" "trace_grows st1 st2"
  shows "trace_grows st st2"
    and "events_since st st2 = events_since st st1 @ events_since st1 st2"
proof -
  have 1: "trace st1 = trace st @ events_since st st1"
    using assms(1) by (simp add: trace_grows_def)
  have 2: "trace st2 = trace st1 @ events_since st1 st2"
    using assms(2) by (simp add: trace_grows_def)
  have 3: "trace st2 = trace st @ (events_since st st1 @ events_since st1 st2)"
    by (subst 2, subst 1) simp
  show "trace_grows st st2" using 3 by (rule trace_growsI)
  show "events_since st st2 = events_since st st1 @ events_since st1 st2"
    using 3 by (rule events_since_append)
qed

lemma same_plugins_refl: "same_plugins st st"
  by (simp add: same_plugins_def)

lemma same_plugins_trans: "same_plugins st st1 \<Longrightarrow> same_plugins st1 st2 \<Longrightarrow> same_plugins st st2"
  by (simp add: same_plugins_def)

lemma same_plugins_has_capability:
  assumes "same_plugins st st'"
  shows "has_capability st' cap ref = has_capability st cap ref"
proof -
  have "(map_option env_functions \<circ> scripts st') ref = (map_option env_functions \<circ> scripts st) ref"
    using assms by (simp add: same_plugins_def)
  then show ?thesis
    by (auto simp: has_capability_def split: option.splits)
qed

lemma same_plugins_functions:
  assumes "same_plugins st st'" "scripts st ref = Some env"
  shows "\<exists>env'. scripts st' ref = Some env' \<and> env_functions env' = env_functions env"
proof -
  have "(map_option env_functions \<circ> scripts st') ref = (map_option env_functions \<circ> scripts st) ref"
    using assms by (simp add: same_plugins_def)
  then show ?thesis using assms(2) by auto
qed

lemma run_filters_frame:
  assumes "run_filters fs c st = (st', r)"
  shows "trace_grows st st'" "same_plugins st st'" "scripts st' = scripts st"
proof -
  from run_filters_shape[OF assms] obtain ress where
    tr: "trace st' = trace st @ filter_events c fs ress" and sc: "scripts st' = scripts st"
    and cf: "capture_filter_scripts st' = capture_filter_scripts st"
    and pc: "process_capture_scripts st' = process_capture_scripts st" by blast
  show "trace_grows st st'" using tr by (rule trace_growsI)
  show "same_plugins st st'" using sc cf pc by (simp add: same_plugins_def)
  show "scripts st' = scripts st" by (rule sc)
qed

lemma run_processors_frame:
  assumes "run_processors ps c st = (st', r)"
  shows "trace_grows st st'" "same_plugins st st'" "scripts st' = scripts st"
proof -
  from run_processors_shape[OF assms] obtain ress where
    tr: "trace st' = trace st @ process_events c ps ress" and sc: "scripts st' = scripts st"
    and cf: "capture_filter_scripts st' = capture_filter_scripts st"
    and pc: "process_capture_scripts st' = process_capture_scripts st" by blast
  show "trace_grows st st'" using tr by (rule trace_growsI)
  show "same_plugins st st'" using sc cf pc by (simp add: same_plugins_def)
  show "scripts st' = scripts st" by (rule sc)
qed

lemma run_filters_falsy_iff:
  assumes "run_filters fs c st = (st', r)"
  shows "(\<exists>res \<in> set (filter_results (events_since st st')). returned_falsy res) = (r = Inr True)"
proof -
  from run_filters_shape[OF assms] obtain ress where
    len: "length ress \<le> length fs" and
    tr: "trace st' = trace st @ filter_events c fs ress" and
    rr: "(case r of
             Inr skip \<Rightarrow> if skip then ress \<noteq> [] \<and> all_truthy (butlast ress) \<and> returned_falsy (last ress)
                         else length ress = length fs \<and> all_truthy ress
           | Inl e \<Rightarrow> ress \<noteq> [] \<and> all_truthy (butlast ress) \<and> last ress = Inl e)" by blast
  have results: "filter_results (events_since st st') = ress"
    using len by (simp add: events_since_append[OF tr] filter_results_filter_events)
  show ?thesis
  proof (cases r)
    case (Inl e)
    then have ne: "ress \<noteq> []" and bl: "all_truthy (butlast ress)" and la: "last ress = Inl e"
      using rr by simp_all
    have "butlast ress @ [Inl e] = ress" using ne la append_butlast_last_id[of ress] by simp
    then have "set ress = set (butlast ress @ [Inl e])" by simp
    then have "set ress = set (butlast ress) \<union> {Inl e}" by simp
    then have "\<forall>res \<in> set ress. \<not> returned_falsy res"
      using bl by (auto simp: all_truthy_def)
    then show ?thesis using Inl results by simp
  next
    case (Inr skip)
    show ?thesis
    proof (cases skip)
      case True
      then have "ress \<noteq> []" "returned_falsy (last ress)" using rr Inr by simp_all
      then have "\<exists>res \<in> set ress. returned_falsy res" using last_in_set by blast
      then show ?thesis using Inr True results by simp
    next
      case False
      then have "all_truthy ress" using rr Inr by simp
      then have "\<forall>res \<in> set ress. \<not> returned_falsy res" by (auto simp: all_truthy_def)
      then show ?thesis using Inr False results by simp
    qed
  qed
qed

lemma run_filters_other_calls:
  assumes "run_filters fs c st = (st', r)"
  shows "process_calls (events_since st st') = []" "initialize_calls (events_since st st') = []"
    "printed (events_since st st') = []"
    "filter_calls (events_since st st') =
       map (\<lambda>rf. (fst rf, c)) (take (length (filter_calls (events_since st st'))) fs)"
proof -
  from run_filters_shape[OF assms] obtain ress where
    tr: "trace st' = trace st @ filter_events c fs ress" and len: "length ress \<le> length fs" by blast
  show "process_calls (events_since st st') = []" "initialize_calls (events_since st st') = []"
    "printed (events_since st st') = []"
    by (simp_all add: events_since_append[OF tr] other_filter_events)
  have "filter_calls (events_since st st') = map (\<lambda>rf. (fst rf, c)) (take (length ress) fs)"
    by (simp add: events_since_append[OF tr] filter_calls_filter_events)
  moreover from this have "length (filter_calls (events_since st st')) = length ress"
    using len by simp
  ultimately show "filter_calls (events_since st st') =
       map (\<lambda>rf. (fst rf, c)) (take (length (filter_calls (events_since st st'))) fs)" by simp
qed

lemma run_processors_calls:
  assumes "run_processors ps c st = (st', r)"
  shows "filter_calls (events_since st st') = []" "filter_results (events_since st st') = []"
    "initialize_calls (events_since st st') = []" "printed (events_since st st') = []"
    "process_calls (events_since st st') =
       map (\<lambda>rf. (fst rf, c)) (take (length (process_calls (events_since st st'))) ps)"
    "r = Inr () \<Longrightarrow> process_calls (events_since st st') = map (\<lambda>rf. (fst rf, c)) ps"
proof -
  from run_processors_shape[OF assms] obtain ress where
    tr: "trace st' = trace st @ process_events c ps ress" and len: "length ress \<le> length ps"
    and full: "r = Inr () \<longrightarrow> length ress = length ps" by blast
  show "filter_calls (events_since st st') = []" "filter_results (events_since st st') = []"
    "initialize_calls (events_since st st') = []" "printed (events_since st st') = []"
    by (simp_all add: events_since_append[OF tr] other_process_events)
  have c: "process_calls (events_since st st') = map (\<lambda>rf. (fst rf, c)) (take (length ress) ps)"
    by (simp add: events_since_append[OF tr] process_calls_process_events)
  moreover from this have "length (process_calls (events_since st st')) = length ress"
    using len by simp
  ultimately show "process_calls (events_since st st') =
       map (\<lambda>rf. (fst rf, c)) (take (length (process_calls (events_since st st'))) ps)" by simp
  show "r = Inr () \<Longrightarrow> process_calls (events_since st st') = map (\<lambda>rf. (fst rf, c)) ps"
    using c full by simp
qed


lemma one_capture_skip:
  assumes "adapt X result = Inr capture" "run_filters filters capture st = (st1, Inr True)"
  shows "one_capture X filters processors result st = (st1, Inr ())"
  using assms by (simp add: one_capture_def)

lemma one_capture_run:
  assumes "adapt X result = Inr capture" "run_filters filters capture st = (st1, Inr False)"
  shows "one_capture X filters processors result st = run_processors processors capture st1"
  using assms by (simp add: one_capture_def)

lemma one_capture_filter_raise:
  assumes "adapt X result = Inr capture" "run_filters filters capture st = (st1, Inl e)"
  shows "one_capture X filters processors result st = (st1, Inl e)"
  using assms by (simp add: one_capture_def)

lemma one_capture_frame:
  assumes "one_capture X filters processors result st = (st', r)"
  shows "trace_grows st st'" "same_plugins st st'" "scripts st' = scripts st"
    "initialize_calls (events_since st st') = []" "printed (events_since st st') = []"
proof -
  have "trace_grows st st' \<and> same_plugins st st' \<and> scripts st' = scripts st \<and>
        initialize_calls (events_since st st') = [] \<and> printed (events_since st st') = []"
  proof (cases "adapt X result")
    case (Inl e)
    then have "st' = st" using assms by (simp add: one_capture_def)
    then show ?thesis by (simp add: trace_grows_refl same_plugins_refl events_since_def)
  next
    case (Inr capture)
    obtain st1 r1 where f: "run_filters filters capture st = (st1, r1)"
      by (cases "run_filters filters capture st")
    note ff = run_filters_frame[OF f] run_filters_other_calls(1-3)[OF f]
    show ?thesis
    proof (cases "r1 = Inr False")
      case False
      then have "st' = st1" using assms Inr f
        by (cases r1) (auto simp: one_capture_def)
      then show ?thesis using ff by simp
    next
      case True
      then have p: "run_processors processors capture st1 = (st', r)"
        using assms Inr f by (simp add: one_capture_def)
      note pp = run_processors_frame[OF p] run_processors_calls(1-4)[OF p]
      have "trace_grows st st'" using ff(1) pp(1) by (rule trace_grows_trans(1))
      moreover have "events_since st st' = events_since st st1 @ events_since st1 st'"
        using ff(1) pp(1) by (rule trace_grows_trans(2))
      moreover have "same_plugins st st'" using ff(2) pp(2) by (rule same_plugins_trans)
      ultimately show ?thesis using ff pp
        by (simp add: initialize_calls_append printed_append)
    qed
  qed
  then show "trace_grows st st'" "same_plugins st st'" "scripts st' = scripts st"
    "initialize_calls (events_since st st') = []" "printed (events_since st st') = []"
    by simp_all
qed

lemma one_capture_calls:
  assumes ad: "adapt X result = Inr capture"
    and run: "one_capture X filters processors result st = (st', r)"
  shows "(\<exists>res \<in> set (filter_results (events_since st st')). returned_falsy res) \<Longrightarrow>
           process_calls (events_since st st') = [] \<and> r = Inr ()"
    and "\<not> (\<exists>res \<in> set (filter_results (events_since st st')). returned_falsy res) \<Longrightarrow>
           r = Inr () \<Longrightarrow>
           process_calls (events_since st st') = map (\<lambda>rf. (fst rf, capture)) processors"
    and "filter_calls (events_since st st') =
           map (\<lambda>rf. (fst rf, capture))
             (take (length (filter_calls (events_since st st'))) filters)"
    and "process_calls (events_since st st') =
           map (\<lambda>rf. (fst rf, capture))
             (take (length (process_calls (events_since st st'))) processors)"
proof -
  obtain st1 r1 where f: "run_filters filters capture st = (st1, r1)"
    by (cases "run_filters filters capture st")
  note ff = run_filters_frame[OF f] run_filters_other_calls[OF f]
  note iff = run_filters_falsy_iff[OF f]
  have stop: "r1 \<noteq> Inr False \<Longrightarrow> st' = st1 \<and> r = (case r1 of Inl e \<Rightarrow> Inl e | Inr b \<Rightarrow> Inr ())"
    using run ad f by (cases r1) (auto simp: one_capture_def)
  have go: "r1 = Inr False \<Longrightarrow> run_processors processors capture st1 = (st', r)"
    using run ad f by (simp add: one_capture_def)
  have split: "r1 = Inr False \<Longrightarrow>
      events_since st st' = events_since st st1 @ events_since st1 st'"
    using trace_grows_trans(2)[OF ff(1) run_processors_frame(1)[OF go]] by simp
  {
    assume fal: "\<exists>res \<in> set (filter_results (events_since st st')). returned_falsy res"
    have "r1 = Inr True"
    proof (cases "r1 = Inr False")
      case True
      have "filter_results (events_since st st') = filter_results (events_since st st1)"
        using split[OF True] run_processors_calls(2)[OF go[OF True]]
        by (simp add: filter_results_append)
      then show ?thesis using fal iff by simp
    next
      case False
      then have "st' = st1" using stop by simp
      then show ?thesis using fal iff by simp
    qed
    then have "st' = st1" "r = Inr ()" using stop by simp_all
    then show "process_calls (events_since st st') = [] \<and> r = Inr ()"
      using ff(4) by simp
  }
  {
    assume nofal: "\<not> (\<exists>res \<in> set (filter_results (events_since st st')). returned_falsy res)"
      and ok: "r = Inr ()"
    have "r1 = Inr False"
    proof (rule ccontr)
      assume n: "r1 \<noteq> Inr False"
      then have s: "st' = st1" and rr: "r = (case r1 of Inl e \<Rightarrow> Inl e | Inr b \<Rightarrow> Inr ())"
        using stop by simp_all
      from rr ok n have "r1 = Inr True" by (cases r1) auto
      then show False using nofal iff s by simp
    qed
    then show "process_calls (events_since st st') = map (\<lambda>rf. (fst rf, capture)) processors"
      using split run_processors_calls(6)[OF go ok] ff(4)
      by (simp add: process_calls_append)
  }
  show "filter_calls (events_since st st') =
           map (\<lambda>rf. (fst rf, capture))
             (take (length (filter_calls (events_since st st'))) filters)"
  proof (cases "r1 = Inr False")
    case True
    have "filter_calls (events_since st st') = filter_calls (events_since st st1)"
      using split[OF True] run_processors_calls(1)[OF go[OF True]]
      by (simp add: filter_calls_append)
    then show ?thesis using ff(7) by simp
  next
    case False
    then have "st' = st1" using stop by simp
    then show ?thesis using ff(7) by simp
  qed
  show "process_calls (events_since st st') =
           map (\<lambda>rf. (fst rf, capture))
             (take (length (process_calls (events_since st st'))) processors)"
  proof (cases "r1 = Inr False")
    case True
    have "process_calls (events_since st st') = process_calls (events_since st1 st')"
      using split[OF True] ff(4) by (simp add: process_calls_append)
    then show ?thesis using run_processors_calls(5)[OF go[OF True]] by simp
  next
    case False
    then have "st' = st1" using stop by simp
    then show ?thesis using ff(4) by simp
  qed
qed

section \<open>The set-up loops of parse_one_file\<close>

lemma events_since_same [simp]: "events_since st st = []"
  by (simp add: events_since_def)

lemma run_initializer_events:
  assumes sc: "scripts st ref = Some env" and run: "run_initializer filename ref env st = (st1, r)"
  shows "trace_grows st st1" "same_plugins st st1"
    "initialize_calls (events_since st st1) =
       (if has_capability st ''initialize'' ref \<and> \<not> is_initialized st ref
        then [(ref, filename)] else [])"
    "filter_calls (events_since st st1) = []" "process_calls (events_since st st1) = []"
    "printed (events_since st st1) = []"
    "r = Inr () \<Longrightarrow> is_initialized st1 p =
       (is_initialized st p \<or> (p = ref \<and> has_capability st ''initialize'' ref))"
proof -
  have hc: "has_capability st ''initialize'' ref = (env_functions env ''initialize'' \<noteq> None)"
    using sc by (simp add: has_capability_def)
  have ii: "is_initialized st ref = env_initialized env"
    using sc by (simp add: is_initialized_def)
  have all: "trace_grows st st1 \<and> same_plugins st st1 \<and>
    initialize_calls (events_since st st1) =
       (if has_capability st ''initialize'' ref \<and> \<not> is_initialized st ref
        then [(ref, filename)] else []) \<and>
    filter_calls (events_since st st1) = [] \<and> process_calls (events_since st st1) = [] \<and>
    printed (events_since st st1) = [] \<and>
    (r = Inr () \<longrightarrow> is_initialized st1 p =
       (is_initialized st p \<or> (p = ref \<and> has_capability st ''initialize'' ref)))"
  proof (cases "env_functions env ''initialize''")
    case None
    then have "st1 = st" "r = Inr ()" using run by (simp_all add: run_initializer_def)
    then show ?thesis using None hc
      by (simp add: trace_grows_refl same_plugins_refl)
  next
    case (Some initializer)
    show ?thesis
    proof (cases "env_initialized env")
      case True
      then have "st1 = st" "r = Inr ()" using run Some by (simp_all add: run_initializer_def)
      then show ?thesis using True ii
        by (auto simp add: trace_grows_refl same_plugins_refl)
    next
      case False
      obtain w res where call: "initializer (PyStr filename) (world st) = (w, res)"
        by (cases "initializer (PyStr filename) (world st)")
      show ?thesis
      proof (cases res)
        case (Inl e)
        then have s: "st1 = emit (Call_initialize ref filename (Inl e)) (st\<lparr>world := w\<rparr>)"
          and rr: "r = Inl e"
          using run Some False call by (simp_all add: run_initializer_def)
        have tr: "trace st1 = trace st @ [Call_initialize ref filename (Inl e)]"
          using s by (simp add: emit_def)
        have "same_plugins st st1" using s by (simp add: same_plugins_def emit_def)
        then show ?thesis
          using trace_growsI[OF tr] events_since_append[OF tr] rr hc ii Some False
          by simp
      next
        case (Inr v)
        then have s: "st1 = emit (Call_initialize ref filename (Inr v))
                     (st\<lparr>world := w,
                         scripts := (scripts st)(ref \<mapsto> env\<lparr>env_initialized := True\<rparr>)\<rparr>)"
          and rr: "r = Inr ()"
          using run Some False call by (simp_all add: run_initializer_def)
        have tr: "trace st1 = trace st @ [Call_initialize ref filename (Inr v)]"
          using s by (simp add: emit_def)
        have "map_option env_functions \<circ> scripts st1 = map_option env_functions \<circ> scripts st"
          using s sc by (auto simp: emit_def fun_eq_iff)
        then have sp: "same_plugins st st1" using s by (simp add: same_plugins_def emit_def)
        have fl: "is_initialized st1 p = (is_initialized st p \<or> p = ref)"
          using s by (simp add: is_initialized_def emit_def)
        show ?thesis
          using trace_growsI[OF tr] events_since_append[OF tr] sp fl hc ii Some False
          by simp
      qed
    qed
  qed
  show "trace_grows st st1" "same_plugins st st1"
    "initialize_calls (events_since st st1) =
       (if has_capability st ''initialize'' ref \<and> \<not> is_initialized st ref
        then [(ref, filename)] else [])"
    "filter_calls (events_since st st1) = []" "process_calls (events_since st st1) = []"
    "printed (events_since st st1) = []"
    using all by simp_all
  show "r = Inr () \<Longrightarrow> is_initialized st1 p =
       (is_initialized st p \<or> (p = ref \<and> has_capability st ''initialize'' ref))"
    using all by simp
qed

lemma run_initializer_raise_flags:
  assumes "run_initializer filename ref env st = (st1, Inl e)"
  shows "scripts st1 = scripts st"
  using assms
  by (auto simp: run_initializer_def emit_def split: option.splits if_splits prod.splits sum.splits)

lemma setup_scripts_Cons_cases:
  assumes "setup_scripts cap filename (ref # refs) acc st = (st', r)"
  obtains (missing) "scripts st ref = None" "setup_scripts cap filename refs acc st = (st', r)"
  | (raised) env e where "scripts st ref = Some env"
      "run_initializer filename ref env st = (st', Inl e)" "r = Inl e"
  | (continue) env st1 where "scripts st ref = Some env"
      "run_initializer filename ref env st = (st1, Inr ())"
      "setup_scripts cap filename refs
         (acc @ (case env_functions env cap of None \<Rightarrow> [] | Some f \<Rightarrow> [(ref, f)])) st1 = (st', r)"
proof (cases "scripts st ref")
  case None
  then show ?thesis using assms missing by simp
next
  case (Some env)
  obtain st1 r1 where ri: "run_initializer filename ref env st = (st1, r1)"
    by (cases "run_initializer filename ref env st")
  show ?thesis
  proof (cases r1)
    case (Inl e)
    then show ?thesis using assms Some ri raised by simp
  next
    case (Inr u)
    then have "run_initializer filename ref env st = (st1, Inr ())" using ri by simp
    moreover have "setup_scripts cap filename refs
         (acc @ (case env_functions env cap of None \<Rightarrow> [] | Some f \<Rightarrow> [(ref, f)])) st1 = (st', r)"
      using assms Some ri Inr by (simp split: option.splits)
    ultimately show ?thesis using Some continue by blast
  qed
qed

lemma initialize_count_simps [simp]:
  "initialize_count p [] = 0"
  "initialize_count p (xs @ ys) = initialize_count p xs + initialize_count p ys"
  by (simp_all add: initialize_count_def initialize_calls_append)

lemma setup_scripts_frame:
  assumes "setup_scripts cap filename refs acc st = (st', r)"
  shows "trace_grows st st' \<and> same_plugins st st' \<and>
         filter_calls (events_since st st') = [] \<and> process_calls (events_since st st') = [] \<and>
         printed (events_since st st') = [] \<and>
         set (initialize_calls (events_since st st')) \<subseteq> (\<lambda>ref. (ref, filename)) ` set refs"
  using assms
proof (induction refs arbitrary: acc st)
  case Nil
  then show ?case by (simp add: trace_grows_refl same_plugins_refl)
next
  case (Cons ref refs)
  from Cons.prems show ?case
  proof (cases rule: setup_scripts_Cons_cases)
    case missing
    from Cons.IH[OF missing(2)] show ?thesis by auto
  next
    case (raised env e)
    note ri = run_initializer_events[OF raised(1) raised(2)]
    have a: "set (initialize_calls (events_since st st')) \<subseteq> {(ref, filename)}"
      using ri(3) by (auto split: if_splits)
    have b: "set (initialize_calls (events_since st st'))
               \<subseteq> (\<lambda>ref. (ref, filename)) ` set (ref # refs)"
      using a by auto
    show ?thesis using ri(1,2,4,5,6) b by simp
  next
    case (continue env st1)
    note ri = run_initializer_events[OF continue(1) continue(2)]
    note ih = Cons.IH[OF continue(3)]
    have tg: "trace_grows st st'" using ri(1) ih by (blast intro: trace_grows_trans(1))
    have ev: "events_since st st' = events_since st st1 @ events_since st1 st'"
      using ri(1) ih by (blast intro: trace_grows_trans(2))
    have sp: "same_plugins st st'" using ri(2) ih by (blast intro: same_plugins_trans)
    have 1: "filter_calls (events_since st st') = []"
      using ri(4) ih by (simp add: ev filter_calls_append)
    have 2: "process_calls (events_since st st') = []"
      using ri(5) ih by (simp add: ev process_calls_append)
    have 3: "printed (events_since st st') = []"
      using ri(6) ih by (simp add: ev printed_append)
    have a: "set (initialize_calls (events_since st st1)) \<subseteq> {(ref, filename)}"
      using ri(3) by (auto split: if_splits)
    have b: "set (initialize_calls (events_since st1 st')) \<subseteq> (\<lambda>ref. (ref, filename)) ` set refs"
      using ih by simp
    have 4: "set (initialize_calls (events_since st st')) \<subseteq> (\<lambda>ref. (ref, filename)) ` set (ref # refs)"
      using a b by (auto simp: ev initialize_calls_append)
    show ?thesis using tg sp 1 2 3 4 by simp
  qed
qed

lemma setup_scripts_result:
  assumes "setup_scripts cap filename refs acc st = (st', Inr fs)"
  shows "map fst fs = map fst acc @ filter (has_capability st cap) refs"
  using assms
proof (induction refs arbitrary: acc st)
  case Nil
  then show ?case by simp
next
  case (Cons ref refs)
  from Cons.prems show ?case
  proof (cases rule: setup_scripts_Cons_cases)
    case missing
    have "\<not> has_capability st cap ref" using missing(1) by (simp add: has_capability_def)
    then show ?thesis using Cons.IH[OF missing(2)] by simp
  next
    case (raised env e)
    then show ?thesis by simp
  next
    case (continue env st1)
    note ri = run_initializer_events[OF continue(1) continue(2)]
    have hc: "has_capability st1 cap = has_capability st cap"
      using same_plugins_has_capability[OF ri(2)] by (simp add: fun_eq_iff)
    have this_one: "has_capability st cap ref = (env_functions env cap \<noteq> None)"
      using continue(1) by (simp add: has_capability_def)
    show ?thesis using Cons.IH[OF continue(3)] hc this_one
      by (auto split: option.splits)
  qed
qed

lemma setup_scripts_count:
  assumes "setup_scripts cap filename refs acc st = (st', r)"
  shows "initialize_count p (events_since st st') \<le>
           (if has_capability st ''initialize'' p \<and> \<not> is_initialized st p \<and> p \<in> set refs
            then 1 else 0)
         \<and> ((\<exists>fs. r = Inr fs) \<longrightarrow>
              initialize_count p (events_since st st') =
                (if has_capability st ''initialize'' p \<and> \<not> is_initialized st p \<and> p \<in> set refs
                 then 1 else 0)
              \<and> is_initialized st' p =
                  (is_initialized st p \<or> (p \<in> set refs \<and> has_capability st ''initialize'' p)))"
  using assms
proof (induction refs arbitrary: acc st)
  case Nil
  then show ?case by auto
next
  case (Cons ref refs)
  from Cons.prems show ?case
  proof (cases rule: setup_scripts_Cons_cases)
    case missing
    have "\<not> has_capability st ''initialize'' ref"
      using missing(1) by (simp add: has_capability_def)
    then show ?thesis using Cons.IH[OF missing(2)] by auto
  next
    case (raised env e)
    note ri = run_initializer_events[OF raised(1) raised(2)]
    show ?thesis using ri(3) raised(3)
      by (auto simp: initialize_count_def)
  next
    case (continue env st1)
    note ri = run_initializer_events[OF continue(1) continue(2)]
    note fr = setup_scripts_frame[OF continue(3)]
    note ih = Cons.IH[OF continue(3)]
    have ev: "events_since st st' = events_since st st1 @ events_since st1 st'"
      using ri(1) fr by (blast intro: trace_grows_trans(2))
    have hc: "has_capability st1 ''initialize'' p = has_capability st ''initialize'' p"
      using same_plugins_has_capability[OF ri(2)] by simp
    have fl: "is_initialized st1 p =
       (is_initialized st p \<or> (p = ref \<and> has_capability st ''initialize'' ref))"
      using ri(7) by simp
    have c1: "initialize_count p (events_since st st1) =
       (if p = ref \<and> has_capability st ''initialize'' ref \<and> \<not> is_initialized st ref then 1 else 0)"
      using ri(3) by (simp add: initialize_count_def)
    show ?thesis
      using ih unfolding ev initialize_count_simps c1 hc fl
      by (auto split: if_splits)
  qed
qed

lemma file_start_props:
  "trace_grows st (file_start filename st)"
  "same_plugins st (file_start filename st)"
  "events_since st (file_start filename st) =
     [StderrWrite (''processing ['' @ filename @ '']'' @ [CHR 0x0A])]"
  "is_initialized (file_start filename st) p = False"
  "capture_filter_scripts (file_start filename st) = capture_filter_scripts st"
  "process_capture_scripts (file_start filename st) = process_capture_scripts st"
proof -
  have tr: "trace (file_start filename st) =
      trace st @ [StderrWrite (''processing ['' @ filename @ '']'' @ [CHR 0x0A])]"
    by (simp add: file_start_def reset_initialized_def emit_def)
  show "trace_grows st (file_start filename st)" using tr by (rule trace_growsI)
  show "events_since st (file_start filename st) =
     [StderrWrite (''processing ['' @ filename @ '']'' @ [CHR 0x0A])]"
    using tr by (rule events_since_append)
  have "map_option env_functions (scripts (file_start filename st) x) =
        map_option env_functions (scripts st x)" for x
    by (cases "scripts st x") (simp_all add: file_start_def reset_initialized_def emit_def)
  then have "map_option env_functions \<circ> scripts (file_start filename st) =
        map_option env_functions \<circ> scripts st"
    by (simp add: fun_eq_iff)
  then show "same_plugins st (file_start filename st)"
    by (simp add: same_plugins_def file_start_def reset_initialized_def emit_def)
  show "is_initialized (file_start filename st) p = False"
    by (simp add: is_initialized_def file_start_def reset_initialized_def emit_def
          split: option.splits)
  show "capture_filter_scripts (file_start filename st) = capture_filter_scripts st"
    "process_capture_scripts (file_start filename st) = process_capture_scripts st"
    by (simp_all add: file_start_def reset_initialized_def emit_def)
qed

lemma setup_file_cases:
  assumes "setup_file filename st = (st', r)"
  obtains (filters_raised) e where
      "setup_scripts ''capture_filter'' filename (capture_filter_scripts st) []
         (file_start filename st) = (st', Inl e)" "r = Inl e"
  | (processors_raised) st1 filters e where
      "setup_scripts ''capture_filter'' filename (capture_filter_scripts st) []
         (file_start filename st) = (st1, Inr filters)"
      "setup_scripts ''process_capture'' filename (process_capture_scripts st) [] st1 = (st', Inl e)"
      "r = Inl e"
  | (ready) st1 filters processors where
      "setup_scripts ''capture_filter'' filename (capture_filter_scripts st) []
         (file_start filename st) = (st1, Inr filters)"
      "setup_scripts ''process_capture'' filename (process_capture_scripts st) [] st1
         = (st', Inr processors)"
      "r = Inr (filters, processors)"
proof -
  let ?st0 = "file_start filename st"
  obtain st1 r1 where s1: "setup_scripts ''capture_filter'' filename (capture_filter_scripts st) []
         ?st0 = (st1, r1)"
    by (cases "setup_scripts ''capture_filter'' filename (capture_filter_scripts st) [] ?st0")
  have cf0: "capture_filter_scripts ?st0 = capture_filter_scripts st"
    by (rule file_start_props(5))
  show ?thesis
  proof (cases r1)
    case (Inl e)
    then have "st' = st1" "r = Inl e"
      using assms s1 cf0 by (simp_all add: setup_file_def Let_def file_start_def)
    then show ?thesis using filters_raised s1 Inl by simp
  next
    case (Inr filters)
    have pc1: "process_capture_scripts st1 = process_capture_scripts st"
      using setup_scripts_frame[OF s1] file_start_props(6)[of filename st]
      by (simp add: same_plugins_def)
    obtain st2 r2 where s2: "setup_scripts ''process_capture'' filename
         (process_capture_scripts st) [] st1 = (st2, r2)"
      by (cases "setup_scripts ''process_capture'' filename (process_capture_scripts st) [] st1")
    show ?thesis
    proof (cases r2)
      case (Inl e)
      then have "st' = st2" "r = Inl e"
        using assms s1 s2 cf0 pc1 Inr by (simp_all add: setup_file_def Let_def file_start_def)
      then show ?thesis using processors_raised s1 s2 Inl Inr by simp
    next
      case (Inr processors)
      then have "st' = st2" "r = Inr (filters, processors)"
        using assms s1 s2 cf0 pc1 \<open>r1 = Inr filters\<close>
        by (simp_all add: setup_file_def Let_def file_start_def)
      then show ?thesis using ready s1 s2 Inr \<open>r1 = Inr filters\<close> by simp
    qed
  qed
qed

lemma initialize_count_StderrWrite [simp]:
  "initialize_count p (StderrWrite s # evs) = initialize_count p evs"
  by (simp add: initialize_count_def)

lemma setup_file_events:
  assumes "setup_file filename st = (st', r)"
  shows "trace_grows st st'" "same_plugins st st'"
    "filter_calls (events_since st st') = []" "process_calls (events_since st st') = []"
    "printed (events_since st st') = []"
    "set (initialize_calls (events_since st st')) \<subseteq>
       (\<lambda>ref. (ref, filename)) ` (set (capture_filter_scripts st) \<union> set (process_capture_scripts st))"
    "initialize_count p (events_since st st') \<le>
       (if has_capability st ''initialize'' p \<and>
           p \<in> set (capture_filter_scripts st) \<union> set (process_capture_scripts st)
        then 1 else 0)"
    "r = Inr (fs, ps) \<Longrightarrow>
       initialize_count p (events_since st st') =
         (if has_capability st ''initialize'' p \<and>
             p \<in> set (capture_filter_scripts st) \<union> set (process_capture_scripts st)
          then 1 else 0)"
    "r = Inr (fs, ps) \<Longrightarrow>
       map fst fs = filter (has_capability st ''capture_filter'') (capture_filter_scripts st) \<and>
       map fst ps = filter (has_capability st ''process_capture'') (process_capture_scripts st)"
proof -
  let ?st0 = "file_start filename st"
  let ?cf = "capture_filter_scripts st" and ?pc = "process_capture_scripts st"
  let ?bound = "(if has_capability st ''initialize'' p \<and> p \<in> set ?cf \<union> set ?pc then 1 else 0) :: nat"
  note fs0 = file_start_props[where st=st and filename=filename]
  have hc0: "has_capability ?st0 cap q = has_capability st cap q" for cap q
    using same_plugins_has_capability[OF fs0(2)] by simp
  have all: "trace_grows st st' \<and> same_plugins st st' \<and>
    filter_calls (events_since st st') = [] \<and> process_calls (events_since st st') = [] \<and>
    printed (events_since st st') = [] \<and>
    set (initialize_calls (events_since st st')) \<subseteq> (\<lambda>ref. (ref, filename)) ` (set ?cf \<union> set ?pc) \<and>
    initialize_count p (events_since st st') \<le> ?bound \<and>
    (r = Inr (fs, ps) \<longrightarrow> initialize_count p (events_since st st') = ?bound \<and>
       map fst fs = filter (has_capability st ''capture_filter'') ?cf \<and>
       map fst ps = filter (has_capability st ''process_capture'') ?pc)"
    using assms
  proof (cases rule: setup_file_cases)
    case (filters_raised e)
    note f1 = setup_scripts_frame[OF filters_raised(1)]
    note c1 = setup_scripts_count[OF filters_raised(1), of p]
    have tg: "trace_grows st st'" using fs0(1) f1 by (blast intro: trace_grows_trans(1))
    have ev: "events_since st st' = events_since st ?st0 @ events_since ?st0 st'"
      using fs0(1) f1 by (blast intro: trace_grows_trans(2))
    have sp: "same_plugins st st'" using fs0(2) f1 by (blast intro: same_plugins_trans)
    have cnt: "initialize_count p (events_since st st') \<le> ?bound"
      using c1 by (auto simp: ev fs0(3) hc0 fs0(4) split: if_splits)
    have ini: "set (initialize_calls (events_since st st')) \<subseteq> (\<lambda>ref. (ref, filename)) ` (set ?cf \<union> set ?pc)"
      using f1 by (auto simp: ev fs0(3) initialize_calls_append)
    show ?thesis using tg sp cnt ini f1 filters_raised(2)
      by (simp add: ev fs0(3) filter_calls_append process_calls_append printed_append)
  next
    case (processors_raised st1 filters e)
    note f1 = setup_scripts_frame[OF processors_raised(1)]
    note c1 = setup_scripts_count[OF processors_raised(1), of p]
    note f2 = setup_scripts_frame[OF processors_raised(2)]
    note c2 = setup_scripts_count[OF processors_raised(2), of p]
    have tg1: "trace_grows st st1" using fs0(1) f1 by (blast intro: trace_grows_trans(1))
    have ev1: "events_since st st1 = events_since st ?st0 @ events_since ?st0 st1"
      using fs0(1) f1 by (blast intro: trace_grows_trans(2))
    have sp1: "same_plugins st st1" using fs0(2) f1 by (blast intro: same_plugins_trans)
    have tg: "trace_grows st st'" using tg1 f2 by (blast intro: trace_grows_trans(1))
    have ev: "events_since st st' = events_since st st1 @ events_since st1 st'"
      using tg1 f2 by (blast intro: trace_grows_trans(2))
    have sp: "same_plugins st st'" using sp1 f2 by (blast intro: same_plugins_trans)
    have hc1: "has_capability st1 ''initialize'' p = has_capability st ''initialize'' p"
      using same_plugins_has_capability[OF sp1] by simp
    have cnt: "initialize_count p (events_since st st') \<le> ?bound"
      using c1 c2 by (auto simp: ev ev1 fs0(3) hc0 hc1 fs0(4) split: if_splits)
    have ini: "set (initialize_calls (events_since st st')) \<subseteq> (\<lambda>ref. (ref, filename)) ` (set ?cf \<union> set ?pc)"
      using f1 f2 by (auto simp: ev ev1 fs0(3) initialize_calls_append)
    show ?thesis using tg sp cnt ini f1 f2 processors_raised(3)
      by (simp add: ev ev1 fs0(3) filter_calls_append process_calls_append printed_append)
  next
    case (ready st1 filters processors)
    note f1 = setup_scripts_frame[OF ready(1)]
    note c1 = setup_scripts_count[OF ready(1), of p]
    note r1 = setup_scripts_result[OF ready(1)]
    note f2 = setup_scripts_frame[OF ready(2)]
    note c2 = setup_scripts_count[OF ready(2), of p]
    note r2 = setup_scripts_result[OF ready(2)]
    have tg1: "trace_grows st st1" using fs0(1) f1 by (blast intro: trace_grows_trans(1))
    have ev1: "events_since st st1 = events_since st ?st0 @ events_since ?st0 st1"
      using fs0(1) f1 by (blast intro: trace_grows_trans(2))
    have sp1: "same_plugins st st1" using fs0(2) f1 by (blast intro: same_plugins_trans)
    have tg: "trace_grows st st'" using tg1 f2 by (blast intro: trace_grows_trans(1))
    have ev: "events_since st st' = events_since st st1 @ events_since st1 st'"
      using tg1 f2 by (blast intro: trace_grows_trans(2))
    have sp: "same_plugins st st'" using sp1 f2 by (blast intro: same_plugins_trans)
    have hc1: "has_capability st1 cap q = has_capability st cap q" for cap q
      using same_plugins_has_capability[OF sp1] by simp
    have cnt: "initialize_count p (events_since st st') = ?bound"
      using c1 c2 by (auto simp: ev ev1 fs0(3) hc0 hc1 fs0(4) split: if_splits)
    have ini: "set (initialize_calls (events_since st st')) \<subseteq> (\<lambda>ref. (ref, filename)) ` (set ?cf \<union> set ?pc)"
      using f1 f2 by (auto simp: ev ev1 fs0(3) initialize_calls_append)
    have l1: "map fst filters = filter (has_capability st ''capture_filter'') ?cf"
      using r1 hc0[of "''capture_filter''"] by (simp cong: filter_cong)
    have l2: "map fst processors = filter (has_capability st ''process_capture'') ?pc"
      using r2 hc1[of "''process_capture''"] by (simp cong: filter_cong)
    have oth: "filter_calls (events_since st st') = []" "process_calls (events_since st st') = []"
      "printed (events_since st st') = []"
      using f1 f2
      by (simp_all add: ev ev1 fs0(3) filter_calls_append process_calls_append printed_append)
    have res: "r = Inr (fs, ps) \<longrightarrow> initialize_count p (events_since st st') = ?bound \<and>
       map fst fs = filter (has_capability st ''capture_filter'') ?cf \<and>
       map fst ps = filter (has_capability st ''process_capture'') ?pc"
      using ready(3) cnt l1 l2 by auto
    have le: "initialize_count p (events_since st st') \<le> ?bound" using cnt by simp
    show ?thesis using tg sp oth ini le res by blast
  qed
  show "trace_grows st st'" "same_plugins st st'"
    "filter_calls (events_since st st') = []" "process_calls (events_since st st') = []"
    "printed (events_since st st') = []"
    "set (initialize_calls (events_since st st')) \<subseteq>
       (\<lambda>ref. (ref, filename)) ` (set (capture_filter_scripts st) \<union> set (process_capture_scripts st))"
    "initialize_count p (events_since st st') \<le> ?bound"
    using all by simp_all
  show "r = Inr (fs, ps) \<Longrightarrow> initialize_count p (events_since st st') = ?bound"
    using all by simp
  show "r = Inr (fs, ps) \<Longrightarrow>
       map fst fs = filter (has_capability st ''capture_filter'') (capture_filter_scripts st) \<and>
       map fst ps = filter (has_capability st ''process_capture'') (process_capture_scripts st)"
    using all by simp
qed

section \<open>The record loop\<close>

lemma capture_loop_Yield_ok:
  "one_capture X filters processors result st = (st', Inr ()) \<Longrightarrow>
   capture_loop X filters processors (Yield result rest) st =
     capture_loop X filters processors rest st'"
  by simp

lemma one_capture_refs:
  assumes "one_capture X filters processors result st = (st', r)"
  shows "fst ` set (filter_calls (events_since st st')) \<subseteq> fst ` set filters"
    "fst ` set (process_calls (events_since st st')) \<subseteq> fst ` set processors"
proof -
  have "fst ` set (filter_calls (events_since st st')) \<subseteq> fst ` set filters \<and>
        fst ` set (process_calls (events_since st st')) \<subseteq> fst ` set processors"
  proof (cases "adapt X result")
    case (Inl e)
    then have "st' = st" using assms by (simp add: one_capture_def)
    then show ?thesis by simp
  next
    case (Inr capture)
    note oc = one_capture_calls(3,4)[OF Inr assms]
    have a: "fst ` set (map (\<lambda>rf. (fst rf, capture)) (take n filters)) \<subseteq> fst ` set filters" for n
      by (force dest: in_set_takeD)
    have b: "fst ` set (map (\<lambda>rf. (fst rf, capture)) (take n processors)) \<subseteq> fst ` set processors" for n
      by (force dest: in_set_takeD)
    show ?thesis using a b oc by metis
  qed
  then show "fst ` set (filter_calls (events_since st st')) \<subseteq> fst ` set filters"
    "fst ` set (process_calls (events_since st st')) \<subseteq> fst ` set processors" by simp_all
qed

lemma capture_loop_events:
  assumes "capture_loop X filters processors stream st = (st', r)"
  shows "trace_grows st st' \<and> same_plugins st st' \<and>
         initialize_calls (events_since st st') = [] \<and> printed (events_since st st') = [] \<and>
         fst ` set (filter_calls (events_since st st')) \<subseteq> fst ` set filters \<and>
         fst ` set (process_calls (events_since st st')) \<subseteq> fst ` set processors"
  using assms
proof (induction stream arbitrary: st)
  case Stop
  then show ?case by (simp add: trace_grows_refl same_plugins_refl)
next
  case (Raise e)
  then show ?case by (simp add: trace_grows_refl same_plugins_refl)
next
  case (Yield result rest)
  obtain st1 r1 where oc: "one_capture X filters processors result st = (st1, r1)"
    by (cases "one_capture X filters processors result st")
  note f1 = one_capture_frame[OF oc] one_capture_refs[OF oc]
  show ?case
  proof (cases r1)
    case (Inl e)
    then have "st' = st1" using Yield.prems oc by simp
    then show ?thesis using f1 by simp
  next
    case (Inr u)
    then have cl: "capture_loop X filters processors rest st1 = (st', r)"
      using Yield.prems oc by simp
    note ih = Yield.IH[OF cl]
    have tg: "trace_grows st st'" using f1(1) ih by (blast intro: trace_grows_trans(1))
    have ev: "events_since st st' = events_since st st1 @ events_since st1 st'"
      using f1(1) ih by (blast intro: trace_grows_trans(2))
    have sp: "same_plugins st st'" using f1(2) ih by (blast intro: same_plugins_trans)
    have i: "initialize_calls (events_since st st') = []" "printed (events_since st st') = []"
      using f1(4,5) ih by (simp_all add: ev initialize_calls_append printed_append)
    have a: "fst ` set (filter_calls (events_since st st')) \<subseteq> fst ` set filters"
      using f1(6) ih by (simp add: ev filter_calls_append image_Un)
    have b: "fst ` set (process_calls (events_since st st')) \<subseteq> fst ` set processors"
      using f1(7) ih by (simp add: ev process_calls_append image_Un)
    show ?thesis using tg sp i a b by simp
  qed
qed

lemma parse_one_file_cases:
  assumes "parse_one_file X filename func st = (st', r)"
  obtains (setup_raised) e where "setup_file filename st = (st', Inl e)" "r = Inl e"
  | (completed) st2 filters processors where
      "setup_file filename st = (st2, Inr (filters, processors))"
      "capture_loop X filters processors (run_parser X func filename (world st2)) st2
         = (st', Inr ())" "r = Inr ()"
  | (stream_raised) st2 filters processors st3 error where
      "setup_file filename st = (st2, Inr (filters, processors))"
      "capture_loop X filters processors (run_parser X func filename (world st2)) st2
         = (st3, Inl error)"
      "st' = (if isinstance_Exception error then emit (Print (exn_msg error)) st3 else st3)"
      "r = Inl error"
proof -
  obtain st2 r2 where s: "setup_file filename st = (st2, r2)" by (cases "setup_file filename st")
  show ?thesis
  proof (cases r2)
    case (Inl e)
    then show ?thesis using assms s setup_raised by (simp add: parse_one_file_def)
  next
    case (Inr fp)
    obtain filters processors where fp: "fp = (filters, processors)" by (cases fp)
    obtain st3 r3 where c: "capture_loop X filters processors
        (run_parser X func filename (world st2)) st2 = (st3, r3)"
      by (cases "capture_loop X filters processors (run_parser X func filename (world st2)) st2")
    show ?thesis
    proof (cases r3)
      case (Inl error)
      then have "st' = (if isinstance_Exception error then emit (Print (exn_msg error)) st3 else st3)"
        "r = Inl error"
        using assms s Inr fp c by (auto simp: parse_one_file_def split: if_splits)
      then show ?thesis using stream_raised s Inr fp c Inl by blast
    next
      case (Inr u)
      then have "st' = st3" "r = Inr ()"
        using assms s \<open>r2 = Inr fp\<close> fp c by (auto simp: parse_one_file_def)
      then show ?thesis using completed s \<open>r2 = Inr fp\<close> fp c Inr by simp
    qed
  qed
qed


lemma emit_frame:
  "trace_grows st (emit ev st)" "same_plugins st (emit ev st)" "events_since st (emit ev st) = [ev]"
  by (simp_all add: trace_grows_def same_plugins_def events_since_def emit_def)

lemma caught_frame:
  "trace_grows st (if b then emit (Print s) st else st)"
  "same_plugins st (if b then emit (Print s) st else st)"
  "events_since st (if b then emit (Print s) st else st) = (if b then [Print s] else [])"
  by (simp_all add: emit_frame trace_grows_refl same_plugins_refl)

lemma parse_one_file_events:
  assumes "parse_one_file X filename func st = (st', r)"
  shows "trace_grows st st'" "same_plugins st st'"
    "initialize_calls (events_since st st') =
       initialize_calls (events_since st (fst (setup_file filename st)))"
    "fst ` set (filter_calls (events_since st st')) \<subseteq> set (capture_filter_scripts st)"
    "fst ` set (process_calls (events_since st st')) \<subseteq> set (process_capture_scripts st)"
proof -
  have all: "trace_grows st st' \<and> same_plugins st st' \<and>
    initialize_calls (events_since st st') =
       initialize_calls (events_since st (fst (setup_file filename st))) \<and>
    fst ` set (filter_calls (events_since st st')) \<subseteq> set (capture_filter_scripts st) \<and>
    fst ` set (process_calls (events_since st st')) \<subseteq> set (process_capture_scripts st)"
    using assms
  proof (cases rule: parse_one_file_cases)
    case (setup_raised e)
    note sf = setup_file_events(1-4)[OF setup_raised(1)]
    show ?thesis using sf setup_raised(1) by simp
  next
    case (completed st2 filters processors)
    note sf = setup_file_events(1-4)[OF completed(1)]
    note ord = setup_file_events(9)[OF completed(1) refl]
    note cl = capture_loop_events[OF completed(2)]
    have tg: "trace_grows st st'" using sf(1) cl by (blast intro: trace_grows_trans(1))
    have ev: "events_since st st' = events_since st st2 @ events_since st2 st'"
      using sf(1) cl by (blast intro: trace_grows_trans(2))
    have sp: "same_plugins st st'" using sf(2) cl by (blast intro: same_plugins_trans)
    have i: "initialize_calls (events_since st st') =
       initialize_calls (events_since st (fst (setup_file filename st)))"
      using cl completed(1) by (simp add: ev initialize_calls_append)
    have fsub: "fst ` set filters \<subseteq> set (capture_filter_scripts st)"
      using ord by (metis (no_types, lifting) filter_is_subset set_map)
    have psub: "fst ` set processors \<subseteq> set (process_capture_scripts st)"
      using ord by (metis (no_types, lifting) filter_is_subset set_map)
    have a: "fst ` set (filter_calls (events_since st st')) \<subseteq> set (capture_filter_scripts st)"
    proof -
      have "filter_calls (events_since st st') = filter_calls (events_since st2 st')"
        using sf(3) by (simp add: ev filter_calls_append)
      moreover have "fst ` set (filter_calls (events_since st2 st')) \<subseteq> fst ` set filters"
        using cl by simp
      ultimately show ?thesis using fsub by (metis subset_trans)
    qed
    have b: "fst ` set (process_calls (events_since st st')) \<subseteq> set (process_capture_scripts st)"
    proof -
      have "process_calls (events_since st st') = process_calls (events_since st2 st')"
        using sf(4) by (simp add: ev process_calls_append)
      moreover have "fst ` set (process_calls (events_since st2 st')) \<subseteq> fst ` set processors"
        using cl by simp
      ultimately show ?thesis using psub by (metis subset_trans)
    qed
    show ?thesis using tg sp i a b by simp
  next
    case (stream_raised st2 filters processors st3 error)
    note sf = setup_file_events(1-4)[OF stream_raised(1)]
    note ord = setup_file_events(9)[OF stream_raised(1) refl]
    note cl = capture_loop_events[OF stream_raised(2)]
    note ca = caught_frame[of st3 "isinstance_Exception error" "exn_msg error"]
    have tg3: "trace_grows st st3" using sf(1) cl by (blast intro: trace_grows_trans(1))
    have ev3: "events_since st st3 = events_since st st2 @ events_since st2 st3"
      using sf(1) cl by (blast intro: trace_grows_trans(2))
    have sp3: "same_plugins st st3" using sf(2) cl by (blast intro: same_plugins_trans)
    have tg: "trace_grows st st'"
      unfolding stream_raised(3) using tg3 ca(1) by (rule trace_grows_trans(1))
    have ev: "events_since st st' = events_since st st3 @
        (if isinstance_Exception error then [Print (exn_msg error)] else [])"
      unfolding stream_raised(3) using trace_grows_trans(2)[OF tg3 ca(1)] ca(3) by simp
    have sp: "same_plugins st st'"
      unfolding stream_raised(3) using sp3 ca(2) by (rule same_plugins_trans)
    have i: "initialize_calls (events_since st st') =
       initialize_calls (events_since st (fst (setup_file filename st)))"
      using cl stream_raised(1) by (simp add: ev ev3 initialize_calls_append)
    have fsub: "fst ` set filters \<subseteq> set (capture_filter_scripts st)"
      using ord by (metis (no_types, lifting) filter_is_subset set_map)
    have psub: "fst ` set processors \<subseteq> set (process_capture_scripts st)"
      using ord by (metis (no_types, lifting) filter_is_subset set_map)
    have a: "fst ` set (filter_calls (events_since st st')) \<subseteq> set (capture_filter_scripts st)"
    proof -
      have "filter_calls (events_since st st') = filter_calls (events_since st2 st3)"
        using sf(3) by (simp add: ev ev3 filter_calls_append)
      moreover have "fst ` set (filter_calls (events_since st2 st3)) \<subseteq> fst ` set filters"
        using cl by simp
      ultimately show ?thesis using fsub by (metis subset_trans)
    qed
    have b: "fst ` set (process_calls (events_since st st')) \<subseteq> set (process_capture_scripts st)"
    proof -
      have "process_calls (events_since st st') = process_calls (events_since st2 st3)"
        using sf(4) by (simp add: ev ev3 process_calls_append)
      moreover have "fst ` set (process_calls (events_since st2 st3)) \<subseteq> fst ` set processors"
        using cl by simp
      ultimately show ?thesis using psub by (metis subset_trans)
    qed
    show ?thesis using tg sp i a b by simp
  qed
  then show "trace_grows st st'" "same_plugins st st'"
    "initialize_calls (events_since st st') =
       initialize_calls (events_since st (fst (setup_file filename st)))"
    "fst ` set (filter_calls (events_since st st')) \<subseteq> set (capture_filter_scripts st)"
    "fst ` set (process_calls (events_since st st')) \<subseteq> set (process_capture_scripts st)"
    by simp_all
qed

section \<open>What the loops over the files keep\<close>

lemma logged_last_Nil: "logged_last [] r"
  by (simp add: logged_last_def split: sum.splits)

lemma logged_last_Inr: "logged_last evs (Inr v) = (printed evs = [])"
  by (simp add: logged_last_def)

lemma logged_last_quiet: "printed evs = [] \<Longrightarrow> logged_last evs r"
  by (simp add: logged_last_def split: sum.splits)

lemma logged_last_append:
  assumes "printed evs1 = []" "logged_last evs2 r"
  shows "logged_last (evs1 @ evs2) r"
  using assms by (auto simp: logged_last_def printed_append split: sum.splits)

lemma logged_last_Inl_cong:
  "logged_last evs (Inl e :: exn + 'a) = logged_last evs (Inl e :: exn + 'b)"
  by (simp add: logged_last_def)

lemma logged_last_caught:
  assumes "printed evs = []"
  shows "logged_last (evs @ (if b then [Print (exn_msg e)] else [])) (Inl e)"
  using assms by (simp add: logged_last_def printed_append)

lemma parse_one_file_logged:
  assumes "parse_one_file X filename func st = (st', r)"
  shows "logged_last (events_since st st') r"
  using assms
proof (cases rule: parse_one_file_cases)
  case (setup_raised e)
  show ?thesis using setup_file_events(5)[OF setup_raised(1)] by (rule logged_last_quiet)
next
  case (completed st2 filters processors)
  note sf = setup_file_events(1,5)[OF completed(1)]
  note cl = capture_loop_events[OF completed(2)]
  have ev: "events_since st st' = events_since st st2 @ events_since st2 st'"
    using sf(1) cl by (blast intro: trace_grows_trans(2))
  have "printed (events_since st st') = []" using sf(2) cl by (simp add: ev printed_append)
  then show ?thesis by (rule logged_last_quiet)
next
  case (stream_raised st2 filters processors st3 error)
  note sf = setup_file_events(1,5)[OF stream_raised(1)]
  note cl = capture_loop_events[OF stream_raised(2)]
  note ca = caught_frame[of st3 "isinstance_Exception error" "exn_msg error"]
  have tg3: "trace_grows st st3" using sf(1) cl by (blast intro: trace_grows_trans(1))
  have ev3: "events_since st st3 = events_since st st2 @ events_since st2 st3"
    using sf(1) cl by (blast intro: trace_grows_trans(2))
  have ev: "events_since st st' = events_since st st3 @
        (if isinstance_Exception error then [Print (exn_msg error)] else [])"
    unfolding stream_raised(3) using trace_grows_trans(2)[OF tg3 ca(1)] ca(3) by simp
  have q: "printed (events_since st st3) = []" using sf(2) cl by (simp add: ev3 printed_append)
  show ?thesis unfolding ev stream_raised(4) using q by (rule logged_last_caught)
qed

lemma run_inv_refl: "run_inv st st (Inr v)"
  by (simp add: run_inv_def trace_grows_refl same_plugins_refl logged_last_def)

lemma run_inv_Inl_cong: "run_inv st st' (Inl e :: exn + 'a) \<Longrightarrow> run_inv st st' (Inl e :: exn + 'b)"
  by (simp add: run_inv_def logged_last_def)

lemma run_inv_trans:
  assumes a: "run_inv st st1 (Inr v)" and b: "run_inv st1 st2 r"
  shows "run_inv st st2 r"
proof -
  have tg: "trace_grows st st2" using a b by (auto simp: run_inv_def intro: trace_grows_trans(1))
  have ev: "events_since st st2 = events_since st st1 @ events_since st1 st2"
    using a b by (auto simp: run_inv_def intro: trace_grows_trans(2))
  have sp: "same_plugins st st2" using a b by (auto simp: run_inv_def intro: same_plugins_trans)
  have cf: "capture_filter_scripts st1 = capture_filter_scripts st"
    and pc: "process_capture_scripts st1 = process_capture_scripts st"
    using a by (simp_all add: run_inv_def same_plugins_def)
  have lg: "logged_last (events_since st st2) r"
    unfolding ev using a b by (auto simp: run_inv_def logged_last_Inr intro: logged_last_append)
  have f: "fst ` set (filter_calls (events_since st st2)) \<subseteq> set (capture_filter_scripts st)"
    using a b cf by (simp add: run_inv_def ev filter_calls_append image_Un)
  have p: "fst ` set (process_calls (events_since st st2)) \<subseteq> set (process_capture_scripts st)"
    using a b pc by (simp add: run_inv_def ev process_calls_append image_Un)
  show ?thesis using tg sp lg f p by (simp add: run_inv_def)
qed

lemma parse_one_file_inv:
  assumes "parse_one_file X filename func st = (st', r)"
  shows "run_inv st st' r"
  using parse_one_file_events(1,2,4,5)[OF assms] parse_one_file_logged[OF assms]
  by (simp add: run_inv_def)

lemma file_loop_inv:
  assumes "file_loop X func files st = (st', r)"
  shows "run_inv st st' r"
  using assms
proof (induction files arbitrary: st)
  case Nil
  then show ?case using run_inv_refl[of st "()"] by simp
next
  case (Cons filename rest)
  obtain st1 r1 where p: "parse_one_file X filename func st = (st1, r1)"
    by (cases "parse_one_file X filename func st")
  note i1 = parse_one_file_inv[OF p]
  show ?case
  proof (cases r1)
    case (Inl e)
    then have "st' = st1" "r = Inl e" using Cons.prems p by simp_all
    then show ?thesis using i1 Inl by simp
  next
    case (Inr u)
    then have "file_loop X func rest st1 = (st', r)" using Cons.prems p by simp
    from Cons.IH[OF this] i1 Inr show ?thesis by (auto intro: run_inv_trans)
  qed
qed

lemma filearg_loop_inv:
  assumes "filearg_loop X func fileargs file_list st = (st', r)"
  shows "run_inv st st' r"
  using assms
proof (induction fileargs arbitrary: st file_list)
  case Nil
  then show ?case using run_inv_refl[of st file_list] by simp
next
  case (Cons filearg rest)
  show ?case
  proof (cases "CHR ''*'' \<in> set filearg")
    case True
    then have "st' = st" "r = Inl NameError_glob" using Cons.prems by simp_all
    then show ?thesis
      by (simp add: run_inv_def trace_grows_refl same_plugins_refl logged_last_Nil)
  next
    case False
    show ?thesis
    proof (cases "if os_path_exists X (world st) filearg then Some [filearg] else file_list")
      case None
      then have "st' = st" "r = Inl UnboundLocalError_file_list"
        using Cons.prems False by (simp_all split: if_splits)
      then show ?thesis
        by (simp add: run_inv_def trace_grows_refl same_plugins_refl logged_last_Nil)
    next
      case (Some files)
      obtain st1 r1 where f: "file_loop X func files st = (st1, r1)"
        by (cases "file_loop X func files st")
      note i1 = file_loop_inv[OF f]
      show ?thesis
      proof (cases r1)
        case (Inl e)
        then have "st' = st1" "r = Inl e" using Cons.prems False Some f by simp_all
        then show ?thesis using i1 Inl by (auto intro: run_inv_Inl_cong)
      next
        case (Inr u)
        then have "filearg_loop X func rest (Some files) st1 = (st', r)"
          using Cons.prems False Some f by simp
        from Cons.IH[OF this] i1 Inr show ?thesis by (auto intro: run_inv_trans)
      qed
    qed
  qed
qed

lemma format_loop_inv:
  assumes "format_loop X a table file_list st = (st', r)"
  shows "run_inv st st' r"
  using assms
proof (induction table arbitrary: st file_list)
  case Nil
  then show ?case using run_inv_refl[of st "()"] by simp
next
  case (Cons entry rest)
  obtain name func where e: "entry = (name, func)" by (cases entry)
  show ?case
  proof (cases "getattr_files a name")
    case None
    then have "format_loop X a rest file_list st = (st', r)" using Cons.prems e by simp
    then show ?thesis by (rule Cons.IH)
  next
    case (Some arg)
    obtain st1 r1 where f: "filearg_loop X func arg file_list st = (st1, r1)"
      by (cases "filearg_loop X func arg file_list st")
    note i1 = filearg_loop_inv[OF f]
    show ?thesis
    proof (cases r1)
      case (Inl ex)
      then have "st' = st1" "r = Inl ex" using Cons.prems e Some f by simp_all
      then show ?thesis using i1 Inl by (auto intro: run_inv_Inl_cong)
    next
      case (Inr fl)
      then have "format_loop X a rest fl st1 = (st', r)" using Cons.prems e Some f by simp
      from Cons.IH[OF this] i1 Inr show ?thesis by (auto intro: run_inv_trans)
    qed
  qed
qed

lemma run_parse_process_loop_inv:
  assumes "run_parse_process_loop X a st = (st', r)"
  shows "run_inv st st' r"
  using assms format_loop_inv by (simp add: run_parse_process_loop_def)

section \<open>Loading\<close>

lemma no_calls_simps [simp]:
  "no_calls []" "no_calls (xs @ ys) = (no_calls xs \<and> no_calls ys)"
  "no_calls (OpenRead s # evs) = no_calls evs" "no_calls (Compile s # evs) = no_calls evs"
  "no_calls (Exec s # evs) = no_calls evs" "no_calls (Instantiate s # evs) = no_calls evs"
  "no_calls (Print s # evs) = no_calls evs" "no_calls (StderrWrite s # evs) = no_calls evs"
  "no_calls (StdoutWrite s # evs) = no_calls evs"
  by (auto simp: no_calls_def filter_calls_append process_calls_append initialize_calls_append)

lemma scan_local_ns_events:
  assumes "scan_local_ns ns env st = (st', r)"
  shows "trace_grows st st' \<and> no_calls (events_since st st') \<and>
         printed (events_since st st') = [] \<and> scripts st' = scripts st \<and>
         capture_filter_scripts st' = capture_filter_scripts st \<and>
         process_capture_scripts st' = process_capture_scripts st"
  using assms
proof (induction ns arbitrary: env st)
  case Nil
  then show ?case by (simp add: trace_grows_refl)
next
  case (Cons binding rest)
  obtain key val where b: "binding = (key, val)" by (cases binding)
  show ?case
  proof (cases val)
    case (ClassObj ctor)
    obtain w res where c: "ctor (world st) = (w, res)" by (cases "ctor (world st)")
    let ?st1 = "emit (Instantiate key) (st\<lparr>world := w\<rparr>)"
    have tr1: "trace ?st1 = trace st @ [Instantiate key]" by (simp add: emit_def)
    have tg1: "trace_grows st ?st1" using tr1 by (rule trace_growsI)
    have ev1: "events_since st ?st1 = [Instantiate key]" using tr1 by (rule events_since_append)
    have fr1: "scripts ?st1 = scripts st" "capture_filter_scripts ?st1 = capture_filter_scripts st"
      "process_capture_scripts ?st1 = process_capture_scripts st"
      by (simp_all add: emit_def)
    show ?thesis
    proof (cases res)
      case (Inl e)
      then have "st' = ?st1" using Cons.prems b ClassObj c by simp
      then show ?thesis using tg1 ev1 fr1 by simp
    next
      case (Inr inst)
      then have "scan_local_ns rest (collect_methods inst (env\<lparr>env_instance := Some inst\<rparr>)) ?st1
                   = (st', r)"
        using Cons.prems b ClassObj c by simp
      note ih = Cons.IH[OF this]
      have tg: "trace_grows st st'" using tg1 ih by (blast intro: trace_grows_trans(1))
      have ev: "events_since st st' = events_since st ?st1 @ events_since ?st1 st'"
        using tg1 ih by (blast intro: trace_grows_trans(2))
      show ?thesis using tg ih fr1 by (simp add: ev ev1 printed_append del: append.simps)
    qed
  next
    case (FunctionObj f)
    then have "scan_local_ns rest (env\<lparr>env_functions := (env_functions env)(key \<mapsto> f)\<rparr>) st
                 = (st', r)"
      using Cons.prems b by simp
    then show ?thesis by (rule Cons.IH)
  next
    case (CallableObj f)
    then have "scan_local_ns rest env st = (st', r)" using Cons.prems b by simp
    then show ?thesis by (rule Cons.IH)
  next
    case DataObj
    then have "scan_local_ns rest env st = (st', r)" using Cons.prems b by simp
    then show ?thesis by (rule Cons.IH)
  qed
qed

lemma load_try_events:
  assumes "load_try X python_code env st = (st', r)"
  shows "trace_grows st st' \<and> no_calls (events_since st st') \<and>
         printed (events_since st st') = [] \<and> scripts st' = scripts st \<and>
         capture_filter_scripts st' = capture_filter_scripts st \<and>
         process_capture_scripts st' = process_capture_scripts st"
proof (cases "py_compile X python_code")
  case (Inl e)
  then have s: "st' = emit (Compile (env_filename env)) st"
    using assms by (simp add: load_try_def)
  have tr: "trace st' = trace st @ [Compile (env_filename env)]" using s by (simp add: emit_def)
  show ?thesis using trace_growsI[OF tr] events_since_append[OF tr] s by (simp add: emit_def)
next
  case (Inr compiled)
  obtain w res where x: "py_exec X compiled (world st) = (w, res)"
    by (cases "py_exec X compiled (world st)")
  let ?st1 = "emit (Exec (env_filename env)) (emit (Compile (env_filename env)) (st\<lparr>world := w\<rparr>))"
  have tr1: "trace ?st1 = trace st @ [Compile (env_filename env), Exec (env_filename env)]"
    by (simp add: emit_def)
  have tg1: "trace_grows st ?st1" using tr1 by (rule trace_growsI)
  have ev1: "events_since st ?st1 = [Compile (env_filename env), Exec (env_filename env)]"
    using tr1 by (rule events_since_append)
  have fr1: "scripts ?st1 = scripts st" "capture_filter_scripts ?st1 = capture_filter_scripts st"
    "process_capture_scripts ?st1 = process_capture_scripts st"
    by (simp_all add: emit_def)
  show ?thesis
  proof (cases res)
    case (Inl e)
    then have "st' = ?st1" using assms Inr x by (simp add: load_try_def)
    then show ?thesis using tg1 ev1 fr1 by simp
  next
    case (Inr local_ns)
    then have "scan_local_ns local_ns (env\<lparr>env_local_ns := local_ns\<rparr>) ?st1 = (st', r)"
      using assms \<open>py_compile X python_code = Inr compiled\<close> x by (simp add: load_try_def)
    note sc = scan_local_ns_events[OF this]
    have tg: "trace_grows st st'" using tg1 sc by (blast intro: trace_grows_trans(1))
    have ev: "events_since st st' = events_since st ?st1 @ events_since ?st1 st'"
      using tg1 sc by (blast intro: trace_grows_trans(2))
    show ?thesis using tg sc fr1 by (simp add: ev ev1 printed_append del: append.simps)
  qed
qed

lemma load_script_file_cases:
  assumes "load_script_file X filename st = (st', r)"
  obtains (cached) "filename \<in> dom (scripts st)" "st' = st" "r = Inr filename"
  | (unreadable) e where "filename \<notin> dom (scripts st)"
      "open_read X (world st) filename = Inl e" "st' = emit (OpenRead filename) st" "r = Inl e"
  | (failed) python_code st1 error where "filename \<notin> dom (scripts st)"
      "open_read X (world st) filename = Inr python_code"
      "load_try X python_code (new_script_env filename) (emit (OpenRead filename) st)
         = (st1, Inl error)"
      "st' = (if isinstance_Exception error then emit (Print (exn_msg error)) st1 else st1)"
      "r = Inl error"
  | (loaded) python_code st1 script_env where "filename \<notin> dom (scripts st)"
      "open_read X (world st) filename = Inr python_code"
      "load_try X python_code (new_script_env filename) (emit (OpenRead filename) st)
         = (st1, Inr script_env)"
      "st' = st1\<lparr>scripts := (scripts st1)(filename \<mapsto> script_env)\<rparr>"
      "r = Inr filename"
proof (cases "filename \<in> dom (scripts st)")
  case True
  then have "st' = st" "r = Inr filename" using assms by (simp_all add: load_script_file_def)
  then show ?thesis using cached True by blast
next
  case False
  show ?thesis
  proof (cases "open_read X (world st) filename")
    case (Inl e)
    then have "st' = emit (OpenRead filename) st" "r = Inl e"
      using assms False by (simp_all add: load_script_file_def)
    then show ?thesis using unreadable False Inl by blast
  next
    case (Inr python_code)
    obtain st1 r1 where lt: "load_try X python_code (new_script_env filename)
        (emit (OpenRead filename) st) = (st1, r1)"
      by (cases "load_try X python_code (new_script_env filename) (emit (OpenRead filename) st)")
    show ?thesis
    proof (cases r1)
      case (Inl error)
      then have "st' = (if isinstance_Exception error then emit (Print (exn_msg error)) st1 else st1)"
        "r = Inl error"
        using assms False Inr lt by (auto simp: load_script_file_def split: if_splits)
      then show ?thesis using failed False Inr lt Inl by blast
    next
      case (Inr script_env)
      then have "st' = st1\<lparr>scripts := (scripts st1)(filename \<mapsto> script_env)\<rparr>" "r = Inr filename"
        using assms False \<open>open_read X (world st) filename = Inr python_code\<close> lt
        by (auto simp: load_script_file_def)
      then show ?thesis
        using loaded False \<open>open_read X (world st) filename = Inr python_code\<close> lt Inr by blast
    qed
  qed
qed

lemma load_script_file_events:
  assumes "load_script_file X filename st = (st', r)"
  shows "load_inv st st' r"
    "capture_filter_scripts st' = capture_filter_scripts st"
    "process_capture_scripts st' = process_capture_scripts st"
    "isl r \<Longrightarrow> scripts st' = scripts st"
    "\<not> isl r \<Longrightarrow> r = Inr filename \<and> filename \<in> dom (scripts st')"
proof -
  have "load_inv st st' r \<and>
    capture_filter_scripts st' = capture_filter_scripts st \<and>
    process_capture_scripts st' = process_capture_scripts st \<and>
    (isl r \<longrightarrow> scripts st' = scripts st) \<and>
    (\<not> isl r \<longrightarrow> r = Inr filename \<and> filename \<in> dom (scripts st'))"
    using assms
  proof (cases rule: load_script_file_cases)
    case cached
    then show ?thesis
      by (simp add: load_inv_def trace_grows_refl logged_last_def)
  next
    case (unreadable e)
    have tr: "trace st' = trace st @ [OpenRead filename]"
      using unreadable(3) by (simp add: emit_def)
    show ?thesis
      using trace_growsI[OF tr] events_since_append[OF tr] unreadable(3,4)
      by (simp add: load_inv_def logged_last_def emit_def)
  next
    case (failed python_code st1 error)
    let ?st0 = "emit (OpenRead filename) st"
    note lt = load_try_events[OF failed(3)]
    note ef = emit_frame[of st "OpenRead filename"]
    note ca = caught_frame[of st1 "isinstance_Exception error" "exn_msg error"]
    have tg1: "trace_grows st st1" using ef(1) lt by (blast intro: trace_grows_trans(1))
    have ev1: "events_since st st1 = OpenRead filename # events_since ?st0 st1"
      using trace_grows_trans(2)[OF ef(1)] lt ef(3) by simp
    have tg: "trace_grows st st'"
      unfolding failed(4) using tg1 ca(1) by (rule trace_grows_trans(1))
    have ev: "events_since st st' = events_since st st1 @
        (if isinstance_Exception error then [Print (exn_msg error)] else [])"
      unfolding failed(4) using trace_grows_trans(2)[OF tg1 ca(1)] ca(3) by simp
    have q: "printed (events_since st st1) = []" using lt by (simp add: ev1)
    have lg: "logged_last (events_since st st') r"
      unfolding ev failed(5) using q by (rule logged_last_caught)
    have nc: "no_calls (events_since st st')" using lt by (simp add: ev ev1)
    have fr: "scripts st' = scripts st" "capture_filter_scripts st' = capture_filter_scripts st"
      "process_capture_scripts st' = process_capture_scripts st"
      using lt by (simp_all add: failed(4) emit_def)
    show ?thesis using tg lg nc fr failed(5) by (simp add: load_inv_def)
  next
    case (loaded python_code st1 script_env)
    let ?st0 = "emit (OpenRead filename) st"
    note lt = load_try_events[OF loaded(3)]
    note ef = emit_frame[of st "OpenRead filename"]
    have tg1: "trace_grows st st1" using ef(1) lt by (blast intro: trace_grows_trans(1))
    have ev1: "events_since st st1 = OpenRead filename # events_since ?st0 st1"
      using trace_grows_trans(2)[OF ef(1)] lt ef(3) by simp
    have tr: "trace st' = trace st1" using loaded(4) by simp
    have tg: "trace_grows st st'" using tg1 tr by (simp add: trace_grows_def events_since_def)
    have ev: "events_since st st' = events_since st st1" using tr by (simp add: events_since_def)
    have q: "printed (events_since st st') = []" using lt by (simp add: ev ev1)
    have nc: "no_calls (events_since st st')" using lt by (simp add: ev ev1)
    have fr: "capture_filter_scripts st' = capture_filter_scripts st"
      "process_capture_scripts st' = process_capture_scripts st"
      using lt by (simp_all add: loaded(4) emit_def)
    show ?thesis using tg q nc fr loaded(4,5) by (simp add: load_inv_def logged_last_def)
  qed
  then show "load_inv st st' r"
    "capture_filter_scripts st' = capture_filter_scripts st"
    "process_capture_scripts st' = process_capture_scripts st"
    "isl r \<Longrightarrow> scripts st' = scripts st"
    "\<not> isl r \<Longrightarrow> r = Inr filename \<and> filename \<in> dom (scripts st')"
    by simp_all
qed

lemma load_inv_refl: "load_inv st st (Inr v)"
  by (simp add: load_inv_def trace_grows_refl logged_last_def)

lemma load_inv_Inl_cong:
  "load_inv st st' (Inl e :: exn + 'a) \<Longrightarrow> load_inv st st' (Inl e :: exn + 'b)"
  by (simp add: load_inv_def logged_last_def)

lemma load_inv_trans:
  assumes a: "load_inv st st1 (Inr v)" and b: "load_inv st1 st2 r"
  shows "load_inv st st2 r"
proof -
  have tg: "trace_grows st st2" using a b by (auto simp: load_inv_def intro: trace_grows_trans(1))
  have ev: "events_since st st2 = events_since st st1 @ events_since st1 st2"
    using a b by (auto simp: load_inv_def intro: trace_grows_trans(2))
  have lg: "logged_last (events_since st st2) r"
    unfolding ev using a b by (auto simp: load_inv_def logged_last_Inr intro: logged_last_append)
  show ?thesis using tg lg a b by (simp add: load_inv_def ev)
qed

lemma load_inv_lists:
  "load_inv st st' r \<Longrightarrow>
   load_inv (st\<lparr>capture_filter_scripts := xs\<rparr>) st' r \<and>
   load_inv (st\<lparr>process_capture_scripts := xs\<rparr>) st' r \<and>
   load_inv st (st'\<lparr>capture_filter_scripts := ys\<rparr>) r \<and>
   load_inv st (st'\<lparr>process_capture_scripts := ys\<rparr>) r"
  by (simp add: load_inv_def trace_grows_def events_since_def)

lemma load_scripts_events:
  assumes "load_scripts X to_filters fileargs st = (st', r)"
  shows "load_inv st st' r \<and>
         (r = Inr () \<longrightarrow>
            capture_filter_scripts st' =
              capture_filter_scripts st @ (if to_filters then fileargs else []) \<and>
            process_capture_scripts st' =
              process_capture_scripts st @ (if to_filters then [] else fileargs))"
  using assms
proof (induction fileargs arbitrary: st)
  case Nil
  then show ?case using load_inv_refl[of st "()"] by simp
next
  case (Cons filearg rest)
  obtain st1 r1 where l: "load_script_file X filearg st = (st1, r1)"
    by (cases "load_script_file X filearg st")
  note le = load_script_file_events[OF l]
  show ?case
  proof (cases r1)
    case (Inl e)
    then have "st' = st1" "r = Inl e" using Cons.prems l by simp_all
    then show ?thesis using le(1) Inl by (auto intro: load_inv_Inl_cong)
  next
    case (Inr ref)
    then have ref: "ref = filearg" using le(5) by simp
    let ?st2 = "if to_filters
             then st1\<lparr>capture_filter_scripts := capture_filter_scripts st1 @ [ref]\<rparr>
             else st1\<lparr>process_capture_scripts := process_capture_scripts st1 @ [ref]\<rparr>"
    have rec: "load_scripts X to_filters rest ?st2 = (st', r)"
      using Cons.prems l Inr by simp
    note ih = Cons.IH[OF rec]
    have i1: "load_inv st ?st2 (Inr ())"
      using le(1) Inr load_inv_lists[of st st1 "Inr ref"]
      by (auto simp: load_inv_def logged_last_def)
    have inv: "load_inv st st' r" using i1 ih by (blast intro: load_inv_trans)
    have lists: "r = Inr () \<longrightarrow>
            capture_filter_scripts st' =
              capture_filter_scripts st @ (if to_filters then filearg # rest else []) \<and>
            process_capture_scripts st' =
              process_capture_scripts st @ (if to_filters then [] else filearg # rest)"
      using ih le(2,3) ref by auto
    show ?thesis using inv lists by simp
  qed
qed

section \<open>process_args\<close>

lemma process_args_rest_cases:
  assumes "process_args_rest X a st = (st', r)"
  obtains (filters_failed) e where
      "load_scripts X True (script_args (arg_capture_filter a))
         (st\<lparr>capture_filter_scripts := []\<rparr>) = (st', Inl e)" "r = Inl e"
  | (processors_failed) st1 e where
      "load_scripts X True (script_args (arg_capture_filter a))
         (st\<lparr>capture_filter_scripts := []\<rparr>) = (st1, Inr ())"
      "load_scripts X False (script_args (arg_process_capture a))
         (st1\<lparr>process_capture_scripts := []\<rparr>) = (st', Inl e)" "r = Inl e"
  | (loaded) st1 st2 where
      "load_scripts X True (script_args (arg_capture_filter a))
         (st\<lparr>capture_filter_scripts := []\<rparr>) = (st1, Inr ())"
      "load_scripts X False (script_args (arg_process_capture a))
         (st1\<lparr>process_capture_scripts := []\<rparr>) = (st2, Inr ())"
      "(st', r) =
         (if arg_import a then (st2, Inr 0)
          else if arg_parse a then
            (case run_parse_process_loop X a st2 of
               (st3, Inl e) \<Rightarrow> (st3, Inl e)
             | (st3, Inr u) \<Rightarrow> (st3, Inr 0))
          else (emit (StderrWrite ([CHR 0x0A] @ ''No recognized options'' @ [CHR 0x0A])) st2,
                Inr 0))"
proof -
  obtain st1 r1 where l1: "load_scripts X True (script_args (arg_capture_filter a))
         (st\<lparr>capture_filter_scripts := []\<rparr>) = (st1, r1)"
    by (cases "load_scripts X True (script_args (arg_capture_filter a))
         (st\<lparr>capture_filter_scripts := []\<rparr>)")
  show ?thesis
  proof (cases r1)
    case (Inl e)
    then have "st' = st1" "r = Inl e" using assms l1 by (simp_all add: process_args_rest_def)
    then show ?thesis using filters_failed l1 Inl by blast
  next
    case (Inr u)
    then have l1': "load_scripts X True (script_args (arg_capture_filter a))
         (st\<lparr>capture_filter_scripts := []\<rparr>) = (st1, Inr ())" using l1 by simp
    obtain st2 r2 where l2: "load_scripts X False (script_args (arg_process_capture a))
         (st1\<lparr>process_capture_scripts := []\<rparr>) = (st2, r2)"
      by (cases "load_scripts X False (script_args (arg_process_capture a))
         (st1\<lparr>process_capture_scripts := []\<rparr>)")
    show ?thesis
    proof (cases r2)
      case (Inl e)
      then have "st' = st2" "r = Inl e" using assms l1' l2 by (simp_all add: process_args_rest_def)
      then show ?thesis using processors_failed l1' l2 Inl by blast
    next
      case (Inr u2)
      then have l2': "load_scripts X False (script_args (arg_process_capture a))
         (st1\<lparr>process_capture_scripts := []\<rparr>) = (st2, Inr ())" using l2 by simp
      have "(st', r) =
         (if arg_import a then (st2, Inr 0)
          else if arg_parse a then
            (case run_parse_process_loop X a st2 of
               (st3, Inl e) \<Rightarrow> (st3, Inl e)
             | (st3, Inr u) \<Rightarrow> (st3, Inr 0))
          else (emit (StderrWrite ([CHR 0x0A] @ ''No recognized options'' @ [CHR 0x0A])) st2,
                Inr 0))"
        using assms l1' l2' by (simp add: process_args_rest_def)
      then show ?thesis using loaded l1' l2' by blast
    qed
  qed
qed


lemma load_inv_trace_eq:
  "trace s = trace t \<Longrightarrow> load_inv s st' r = load_inv t st' r"
  by (simp add: load_inv_def trace_grows_def events_since_def)

lemma events_since_trace_eq:
  "trace s = trace t \<Longrightarrow> events_since s st' = events_since t st'"
  by (simp add: events_since_def)

lemma no_calls_refs:
  assumes "no_calls evs"
  shows "fst ` set (filter_calls evs) \<subseteq> A" "fst ` set (process_calls evs) \<subseteq> B"
  using assms by (simp_all add: no_calls_def)

lemma process_args_rest_events:
  assumes "process_args_rest X a st = (st', r)"
  shows "trace_grows st st'" "logged_last (events_since st st') r"
    "fst ` set (filter_calls (events_since st st')) \<subseteq> set (script_args (arg_capture_filter a))"
    "fst ` set (process_calls (events_since st st')) \<subseteq> set (script_args (arg_process_capture a))"
proof -
  let ?A = "set (script_args (arg_capture_filter a))"
  let ?B = "set (script_args (arg_process_capture a))"
  let ?sta = "st\<lparr>capture_filter_scripts := []\<rparr>"
  have tra: "trace ?sta = trace st" by simp
  have all: "trace_grows st st' \<and> logged_last (events_since st st') r \<and>
    fst ` set (filter_calls (events_since st st')) \<subseteq> ?A \<and>
    fst ` set (process_calls (events_since st st')) \<subseteq> ?B"
    using assms
  proof (cases rule: process_args_rest_cases)
    case (filters_failed e)
    have "load_inv ?sta st' (Inl e :: exn + unit)"
      using load_scripts_events[OF filters_failed(1)] by simp
    then have i: "load_inv st st' r"
      unfolding filters_failed(2) load_inv_trace_eq[OF tra] by (rule load_inv_Inl_cong)
    show ?thesis using i no_calls_refs(1)[of "events_since st st'" ?A]
        no_calls_refs(2)[of "events_since st st'" ?B]
      by (simp add: load_inv_def)
  next
    case (processors_failed st1 e)
    let ?stb = "st1\<lparr>process_capture_scripts := []\<rparr>"
    have trb: "trace ?stb = trace st1" by simp
    have i1: "load_inv st st1 (Inr ())"
      using load_scripts_events[OF processors_failed(1)] unfolding load_inv_trace_eq[OF tra] by simp
    have "load_inv ?stb st' (Inl e :: exn + unit)"
      using load_scripts_events[OF processors_failed(2)] by simp
    then have i2: "load_inv st1 st' r"
      unfolding processors_failed(3) load_inv_trace_eq[OF trb] by (rule load_inv_Inl_cong)
    have i: "load_inv st st' r" using i1 i2 by (rule load_inv_trans)
    show ?thesis using i no_calls_refs(1)[of "events_since st st'" ?A]
        no_calls_refs(2)[of "events_since st st'" ?B]
      by (simp add: load_inv_def)
  next
    case (loaded st1 st2)
    let ?stb = "st1\<lparr>process_capture_scripts := []\<rparr>"
    have trb: "trace ?stb = trace st1" by simp
    note l1 = load_scripts_events[OF loaded(1)]
    note l2 = load_scripts_events[OF loaded(2)]
    have i1: "load_inv st st1 (Inr ())"
      using l1 unfolding load_inv_trace_eq[OF tra] by simp
    have i2: "load_inv st1 st2 (Inr ())"
      using l2 unfolding load_inv_trace_eq[OF trb] by simp
    have i: "load_inv st st2 (Inr ())" using i1 i2 by (rule load_inv_trans)
    have cf: "capture_filter_scripts st2 = script_args (arg_capture_filter a)"
      using l1 l2 by simp
    have pc: "process_capture_scripts st2 = script_args (arg_process_capture a)"
      using l2 by simp
    have tg2: "trace_grows st st2" and nc2: "no_calls (events_since st st2)"
      and q2: "printed (events_since st st2) = []"
      using i by (simp_all add: load_inv_def logged_last_def)
    show ?thesis
    proof (cases "arg_import a")
      case True
      then have "st' = st2" "r = Inr 0" using loaded(3) by simp_all
      then show ?thesis using tg2 q2 no_calls_refs(1)[OF nc2, of ?A] no_calls_refs(2)[OF nc2, of ?B]
        by (simp add: logged_last_def)
    next
      case False
      show ?thesis
      proof (cases "arg_parse a")
        case True
        obtain st3 r3 where run: "run_parse_process_loop X a st2 = (st3, r3)"
          by (cases "run_parse_process_loop X a st2")
        note ri = run_parse_process_loop_inv[OF run]
        have s3: "st' = st3" using loaded(3) False True run by (cases r3) simp_all
        have rr: "r = (case r3 of Inl e \<Rightarrow> Inl e | Inr u \<Rightarrow> Inr 0)"
          using loaded(3) False True run by (cases r3) simp_all
        have tg: "trace_grows st st'"
          unfolding s3 using tg2 ri by (auto simp: run_inv_def intro: trace_grows_trans(1))
        have ev: "events_since st st' = events_since st st2 @ events_since st2 st3"
          unfolding s3 using tg2 ri by (auto simp: run_inv_def intro: trace_grows_trans(2))
        have "logged_last (events_since st2 st3) r"
          using ri rr by (cases r3) (simp_all add: run_inv_def logged_last_def)
        then have lg: "logged_last (events_since st st') r"
          unfolding ev using q2 by (auto intro: logged_last_append)
        have f: "fst ` set (filter_calls (events_since st st')) \<subseteq> ?A"
          using ri nc2 cf by (simp add: ev filter_calls_append run_inv_def no_calls_def)
        have p: "fst ` set (process_calls (events_since st st')) \<subseteq> ?B"
          using ri nc2 pc by (simp add: ev process_calls_append run_inv_def no_calls_def)
        show ?thesis using tg lg f p by simp
      next
        case nop: False
        let ?ev = "StderrWrite ([CHR 0x0A] @ ''No recognized options'' @ [CHR 0x0A])"
        have s: "st' = emit ?ev st2" "r = Inr 0" using loaded(3) False nop by simp_all
        note ef = emit_frame[of st2 ?ev]
        have tg: "trace_grows st st'"
          unfolding s using tg2 ef(1) by (rule trace_grows_trans(1))
        have ev: "events_since st st' = events_since st st2 @ [?ev]"
          unfolding s using trace_grows_trans(2)[OF tg2 ef(1)] ef(3) by simp
        have lg: "logged_last (events_since st st') r"
          unfolding ev s(2) using q2 by (simp add: printed_append logged_last_def)
        have f: "fst ` set (filter_calls (events_since st st')) \<subseteq> ?A"
          using nc2 by (simp add: ev filter_calls_append no_calls_def del: append.simps)
        have p: "fst ` set (process_calls (events_since st st')) \<subseteq> ?B"
          using nc2 by (simp add: ev process_calls_append no_calls_def del: append.simps)
        show ?thesis using tg lg f p by simp
      qed
    qed
  qed
  then show "trace_grows st st'" "logged_last (events_since st st') r"
    "fst ` set (filter_calls (events_since st st')) \<subseteq> ?A"
    "fst ` set (process_calls (events_since st st')) \<subseteq> ?B"
    by simp_all
qed

lemma process_args_events:
  assumes "process_args X a st = (st', r)"
  shows "trace_grows st st'" "logged_last (events_since st st') r"
    "fst ` set (filter_calls (events_since st st')) \<subseteq> set (script_args (arg_capture_filter a))"
    "fst ` set (process_calls (events_since st st')) \<subseteq> set (script_args (arg_process_capture a))"
proof -
  have "trace_grows st st' \<and> logged_last (events_since st st') r \<and>
    fst ` set (filter_calls (events_since st st')) \<subseteq> set (script_args (arg_capture_filter a)) \<and>
    fst ` set (process_calls (events_since st st')) \<subseteq> set (script_args (arg_process_capture a))"
  proof (cases "db_missing X a (world st)")
    case True
    let ?ev = "StderrWrite ([CHR 0x0A] @ ''DB file ['' @ db_filename_of (the (arg_db a))
                                 @ ''] does not exist'' @ [CHR 0x0A])"
    have s: "st' = emit ?ev st" "r = Inr 1" using assms True by (simp_all add: process_args_def)
    note ef = emit_frame[of st ?ev]
    show ?thesis unfolding s using ef(1) by (simp add: ef(3) logged_last_def del: append.simps)
  next
    case False
    then have "process_args_rest X a st = (st', r)" using assms by (simp add: process_args_def)
    from process_args_rest_events[OF this] show ?thesis by simp
  qed
  then show "trace_grows st st'" "logged_last (events_since st st') r"
    "fst ` set (filter_calls (events_since st st')) \<subseteq> set (script_args (arg_capture_filter a))"
    "fst ` set (process_calls (events_since st st')) \<subseteq> set (script_args (arg_process_capture a))"
    by simp_all
qed

text \<open>The definitions that a run of the sample command lines unfolds.\<close>

lemmas demo_run_defs = demo_externals_def demo_args_def demo_namespace_def demo_source_def
  demo_keep_def demo_drop_odd_def init_raft_def emit_def demo_args_filter_only_def
  process_args_def process_args_rest_def db_missing_def script_args_def new_script_env_def
  load_script_file_def load_try_def run_parse_process_loop_def FILE_PROCESSOR_DEFINTIONS_def
  getattr_files_def parse_one_file_def setup_file_def reset_initialized_def run_initializer_def
  one_capture_def events_since_def

section \<open>An error in the record stream\<close>

lemma capture_loop_foldr:
  "capture_loop X filters processors (foldr Yield rs Stop) st = (sk, Inr ()) \<Longrightarrow>
   capture_loop X filters processors (foldr Yield rs tail) st =
     capture_loop X filters processors tail sk"
proof (induction rs arbitrary: st)
  case Nil
  then show ?case by simp
next
  case (Cons result rs)
  obtain st1 r1 where oc: "one_capture X filters processors result st = (st1, r1)"
    by (cases "one_capture X filters processors result st")
  show ?case
  proof (cases r1)
    case (Inl e)
    then show ?thesis using Cons.prems oc by simp
  next
    case (Inr u)
    then have "capture_loop X filters processors (foldr Yield rs Stop) st1 = (sk, Inr ())"
      using Cons.prems oc by simp
    from Cons.IH[OF this] show ?thesis using oc Inr by simp
  qed
qed

lemma capture_loop_pull_raise:
  "pull_one X filters processors tail sk = (st2, Inl error) \<Longrightarrow>
   capture_loop X filters processors tail sk = (st2, Inl error)"
  by (cases tail) simp_all

lemma pull_one_frame:
  assumes "pull_one X filters processors tail sk = (st2, r)"
  shows "trace_grows sk st2" "printed (events_since sk st2) = []"
proof -
  have "trace_grows sk st2 \<and> printed (events_since sk st2) = []"
  proof (cases tail)
    case Stop
    then show ?thesis using assms by (simp add: trace_grows_refl)
  next
    case (Raise e)
    then show ?thesis using assms by (simp add: trace_grows_refl)
  next
    case (Yield result rest)
    then have "one_capture X filters processors result sk = (st2, r)" using assms by simp
    from one_capture_frame(1,5)[OF this] show ?thesis by simp
  qed
  then show "trace_grows sk st2" "printed (events_since sk st2) = []" by simp_all
qed

lemma logged_last_raised:
  assumes "logged_last evs r" "printed evs \<noteq> []"
  shows "\<exists>e. r = Inl e \<and> printed evs = [exn_msg e] \<and> last evs = Print (exn_msg e)"
  using assms by (cases r) (auto simp: logged_last_def)

section \<open>The inner loops make the calls of their specifications\<close>

lemma calls_until_Cons:
  "calls_until p (out # outs) = (if p out then out # calls_until p outs else [out])"
  by (simp add: calls_until_def)

lemma calls_until_Nil [simp]: "calls_until p [] = []"
  by (simp add: calls_until_def)

lemma world_after_Nil [simp]: "world_after w [] = w"
  by (simp add: world_after_def)

lemma world_after_Cons: "world_after w (out # made) = world_after (snd (snd out)) made"
  by (simp add: world_after_def)

lemma after_calls_Nil [simp]: "after_calls event [] st = st"
  by (simp add: after_calls_def)

lemma after_calls_Cons:
  "after_calls event (out # made) st =
     after_calls event made (emit (event out) (st\<lparr>world := snd (snd out)\<rparr>))"
  by (simp add: after_calls_def emit_def world_after_Cons)

lemma run_filters_spec: "run_filters filters capture st = spec_filters filters capture st"
proof (induction filters arbitrary: st)
  case Nil
  show ?case by (simp add: spec_filters_def)
next
  case (Cons a filters)
  obtain ref f where a: "a = (ref, f)" by (cases a)
  obtain w res where call: "f (PyCapture capture) (world st) = (w, res)"
    by (cases "f (PyCapture capture) (world st)")
  let ?out = "(ref, res, w)"
  let ?st1 = "emit (Call_capture_filter ref capture res) (st\<lparr>world := w\<rparr>)"
  have outs: "call_each (a # filters) (PyCapture capture) (world st) =
      ?out # call_each filters (PyCapture capture) w"
    using a call by simp
  have ev: "filter_event capture ?out = Call_capture_filter ref capture res"
    by (simp add: filter_event_def)
  have w1: "world ?st1 = w" by (simp add: emit_def)
  show ?case
  proof (cases "passed ?out")
    case False
    then have stop: "run_filters (a # filters) capture st =
        (?st1, case res of Inl e \<Rightarrow> Inl e | Inr v \<Rightarrow> Inr True)"
      using a call by (cases res) (simp_all add: passed_def)
    have "spec_filters (a # filters) capture st =
        (?st1, case res of Inl e \<Rightarrow> Inl e | Inr v \<Rightarrow> Inr True)"
      using False
      by (simp add: spec_filters_def outs calls_until_Cons after_calls_Cons ev)
    then show ?thesis using stop by simp
  next
    case True
    then obtain v where res: "res = Inr v" and tv: "truthy v"
      by (cases res) (simp_all add: passed_def)
    have go: "run_filters (a # filters) capture st = run_filters filters capture ?st1"
      using a call res tv by simp
    have "spec_filters (a # filters) capture st = spec_filters filters capture ?st1"
      using True
      by (simp add: spec_filters_def outs calls_until_Cons after_calls_Cons ev w1)
    then show ?thesis using go Cons.IH by simp
  qed
qed

lemma run_processors_spec:
  "run_processors processors capture st = spec_processors processors capture st"
proof (induction processors arbitrary: st)
  case Nil
  show ?case by (simp add: spec_processors_def)
next
  case (Cons a processors)
  obtain ref f where a: "a = (ref, f)" by (cases a)
  obtain w res where call: "f (PyCapture capture) (world st) = (w, res)"
    by (cases "f (PyCapture capture) (world st)")
  let ?out = "(ref, res, w)"
  let ?st1 = "emit (Call_process_capture ref capture res) (st\<lparr>world := w\<rparr>)"
  have outs: "call_each (a # processors) (PyCapture capture) (world st) =
      ?out # call_each processors (PyCapture capture) w"
    using a call by simp
  have ev: "process_event capture ?out = Call_process_capture ref capture res"
    by (simp add: process_event_def)
  have w1: "world ?st1 = w" by (simp add: emit_def)
  show ?case
  proof (cases res)
    case (Inl e)
    then have stop: "run_processors (a # processors) capture st = (?st1, Inl e)"
      using a call by simp
    have "\<not> returned ?out" using Inl by (simp add: returned_def)
    then have "spec_processors (a # processors) capture st = (?st1, Inl e)"
      using Inl
      by (simp add: spec_processors_def outs calls_until_Cons after_calls_Cons process_event_def)
    then show ?thesis using stop by simp
  next
    case (Inr v)
    then have go: "run_processors (a # processors) capture st =
        run_processors processors capture ?st1"
      using a call by simp
    have "returned ?out" using Inr by (simp add: returned_def)
    then have "spec_processors (a # processors) capture st =
        spec_processors processors capture ?st1"
      by (simp add: spec_processors_def outs calls_until_Cons after_calls_Cons process_event_def w1)
    then show ?thesis using go Cons.IH by simp
  qed
qed

lemma one_capture_spec:
  "adapt X result = Inr capture \<Longrightarrow>
   one_capture X filters processors result st = spec_record filters processors capture st"
  by (simp add: one_capture_def spec_record_def run_filters_spec run_processors_spec
        split: prod.splits sum.splits)

lemma capture_loop_spec:
  "capture_loop X filters processors (foldr Yield results Stop) st =
     spec_records X filters processors results st"
proof (induction results arbitrary: st)
  case Nil
  show ?case by simp
next
  case (Cons result results)
  show ?case
  proof (cases "adapt X result")
    case (Inl e)
    then show ?thesis by (simp add: one_capture_def)
  next
    case (Inr capture)
    show ?thesis
      using Cons.IH by (simp add: Inr one_capture_spec[OF Inr] split: prod.splits sum.splits)
  qed
qed

lemma capability_functions_same:
  assumes "same_plugins s t"
  shows "capability_functions t cap refs = capability_functions s cap refs"
proof (induction refs)
  case Nil
  show ?case by simp
next
  case (Cons r rs)
  have "map_option env_functions (scripts t r) = map_option env_functions (scripts s r)"
    using assms by (auto simp: same_plugins_def fun_eq_iff)
  then show ?case using Cons
    by (cases "scripts s r"; cases "scripts t r") (auto split: option.splits)
qed

lemma setup_scripts_functions:
  assumes "setup_scripts cap filename refs acc st = (st', Inr fs)"
  shows "fs = acc @ capability_functions st cap refs"
  using assms
proof (induction refs arbitrary: acc st)
  case Nil
  then show ?case by simp
next
  case (Cons ref refs)
  from Cons.prems show ?case
  proof (cases rule: setup_scripts_Cons_cases)
    case missing
    then show ?thesis using Cons.IH[OF missing(2)] by simp
  next
    case (raised env e)
    then show ?thesis by simp
  next
    case (continue env st1)
    note ri = run_initializer_events[OF continue(1) continue(2)]
    have same: "capability_functions st1 cap refs = capability_functions st cap refs"
      using ri(2) by (rule capability_functions_same)
    show ?thesis using Cons.IH[OF continue(3)] continue(1) same
      by (auto split: option.splits)
  qed
qed

lemma setup_file_functions:
  assumes "snd (setup_file filename st) = Inr (filters, processors)"
  shows "filters = capability_functions st ''capture_filter'' (capture_filter_scripts st)"
    "processors = capability_functions st ''process_capture'' (process_capture_scripts st)"
proof -
  obtain st' where s: "setup_file filename st = (st', Inr (filters, processors))"
    using assms by (cases "setup_file filename st") simp
  have "filters = capability_functions st ''capture_filter'' (capture_filter_scripts st) \<and>
    processors = capability_functions st ''process_capture'' (process_capture_scripts st)"
    using s
  proof (cases rule: setup_file_cases)
    case (filters_raised e)
    then show ?thesis by simp
  next
    case (processors_raised st1 fs e)
    then show ?thesis by simp
  next
    case (ready st1 fs ps)
    note fp = file_start_props[where st=st and filename=filename]
    note f1 = setup_scripts_frame[OF ready(1)]
    have sp1: "same_plugins st st1" using fp(2) f1 by (blast intro: same_plugins_trans)
    have a: "fs = capability_functions st ''capture_filter'' (capture_filter_scripts st)"
      using setup_scripts_functions[OF ready(1)] capability_functions_same[OF fp(2)] by simp
    have b: "ps = capability_functions st ''process_capture'' (process_capture_scripts st)"
      using setup_scripts_functions[OF ready(2)] capability_functions_same[OF sp1] by simp
    show ?thesis using a b ready(3) by simp
  qed
  then show "filters = capability_functions st ''capture_filter'' (capture_filter_scripts st)"
    "processors = capability_functions st ''process_capture'' (process_capture_scripts st)"
    by simp_all
qed

lemma process_args_rest_load_all:
  "process_args_rest X a st =
     (case load_all X a st of
        (st2, Inl e) \<Rightarrow> (st2, Inl e)
      | (st2, Inr u) \<Rightarrow>
          (if arg_import a then (st2, Inr 0)
           else if arg_parse a then
             (case run_parse_process_loop X a st2 of
                (st3, Inl e) \<Rightarrow> (st3, Inl e)
              | (st3, Inr u) \<Rightarrow> (st3, Inr 0))
           else (emit (StderrWrite ([CHR 0x0A] @ ''No recognized options'' @ [CHR 0x0A])) st2,
                 Inr 0)))"
  by (simp add: process_args_rest_def load_all_def split: prod.splits sum.splits)

lemma load_all_lists:
  assumes "\<not> isl (snd (load_all X a st))"
  shows "capture_filter_scripts (fst (load_all X a st)) = script_args (arg_capture_filter a)"
    "process_capture_scripts (fst (load_all X a st)) = script_args (arg_process_capture a)"
proof -
  obtain st1 r1 where l1: "load_scripts X True (script_args (arg_capture_filter a))
      (st\<lparr>capture_filter_scripts := []\<rparr>) = (st1, r1)"
    by (cases "load_scripts X True (script_args (arg_capture_filter a))
      (st\<lparr>capture_filter_scripts := []\<rparr>)")
  have r1: "r1 = Inr ()" using assms l1 by (cases r1) (simp_all add: load_all_def)
  obtain st2 r2 where l2: "load_scripts X False (script_args (arg_process_capture a))
      (st1\<lparr>process_capture_scripts := []\<rparr>) = (st2, r2)"
    by (cases "load_scripts X False (script_args (arg_process_capture a))
      (st1\<lparr>process_capture_scripts := []\<rparr>)")
  have la: "load_all X a st = (st2, r2)" using l1 r1 l2 by (simp add: load_all_def)
  have r2: "r2 = Inr ()" using assms la by (cases r2) simp_all
  note e1 = load_scripts_events[OF l1]
  note e2 = load_scripts_events[OF l2]
  show "capture_filter_scripts (fst (load_all X a st)) = script_args (arg_capture_filter a)"
    using e1 e2 r1 r2 la by simp
  show "process_capture_scripts (fst (load_all X a st)) = script_args (arg_process_capture a)"
    using e2 r2 la by simp
qed

text \<open>The definitions that a run of a specification unfolds.\<close>

lemmas spec_run_defs = spec_filters_def spec_processors_def spec_record_def calls_until_def
  after_calls_def world_after_def passed_def returned_def filter_event_def process_event_def
  initialize_event_def

section \<open>The set-up loops call the initialize functions of their specification\<close>

lemma capability_functions_append:
  "capability_functions st cap (xs @ ys) =
     capability_functions st cap xs @ capability_functions st cap ys"
  by (induction xs) (auto split: option.splits)

lemma fst_capability_functions:
  "fst ` set (capability_functions st cap refs) = {ref \<in> set refs. has_capability st cap ref}"
  by (induction refs) (auto simp: has_capability_def split: option.splits)

lemma capability_functions_filter_cong:
  assumes "\<And>r. r \<in> set xs \<Longrightarrow> has_capability st cap r \<Longrightarrow> P r = Q r"
  shows "capability_functions st cap (filter P xs) = capability_functions st cap (filter Q xs)"
  using assms
proof (induction xs)
  case Nil
  show ?case by simp
next
  case (Cons x xs)
  have ih: "capability_functions st cap (filter P xs) = capability_functions st cap (filter Q xs)"
    using Cons by simp
  show ?case
  proof (cases "has_capability st cap x")
    case True
    then have "P x = Q x" using Cons.prems by simp
    then show ?thesis using ih by (auto split: option.splits)
  next
    case False
    then have skip: "capability_functions st cap (x # ys) = capability_functions st cap ys" for ys
      by (auto simp: has_capability_def split: option.splits)
    show ?thesis using ih skip by simp
  qed
qed

lemma capability_functions_no_capability:
  "\<not> has_capability st cap ref \<Longrightarrow>
   capability_functions st cap (ref # refs) = capability_functions st cap refs"
  by (auto simp: has_capability_def split: option.splits)

lemma set_first_occurrences [simp]: "set (first_occurrences xs) = set xs"
  by (induction xs) auto

lemma distinct_first_occurrences: "distinct (first_occurrences xs)"
  by (induction xs) (auto simp: distinct_filter)

lemma first_occurrences_append:
  "first_occurrences (xs @ ys) =
     first_occurrences xs @ filter (\<lambda>y. y \<notin> set xs) (first_occurrences ys)"
proof (induction xs)
  case Nil
  show ?case by simp
next
  case (Cons x xs)
  have "filter (\<lambda>y. y \<noteq> x) (filter (\<lambda>y. y \<notin> set xs) (first_occurrences ys)) =
        filter (\<lambda>y. y \<notin> set (x # xs)) (first_occurrences ys)"
    by (auto intro: filter_cong)
  then show ?case using Cons by simp
qed

lemma call_each_append:
  "call_each (fs @ gs) v w =
     call_each fs v w @ call_each gs v (world_after w (call_each fs v w))"
proof (induction fs arbitrary: w)
  case Nil
  show ?case by simp
next
  case (Cons a fs)
  obtain ref f where a: "a = (ref, f)" by (cases a)
  show ?case using Cons[of "fst (f v w)"] by (simp add: a world_after_Cons)
qed

lemma fst_call_each: "map fst (call_each fs v w) = map fst fs"
  by (induction fs arbitrary: w) auto

lemma mark_initialized_empty [simp]: "mark_initialized {} m = m"
  by (auto simp: mark_initialized_def fun_eq_iff option.map_ident)

lemma mark_initialized_mark:
  "mark_initialized S (mark_initialized T m) = mark_initialized (T \<union> S) m"
proof
  fix key
  show "mark_initialized S (mark_initialized T m) key = mark_initialized (T \<union> S) m key"
    by (cases "m key") (simp_all add: mark_initialized_def)
qed

lemma mark_initialized_upd:
  assumes "m ref = Some env"
  shows "mark_initialized S (m(ref \<mapsto> env\<lparr>env_initialized := True\<rparr>)) =
         mark_initialized (insert ref S) m"
proof
  fix key
  show "mark_initialized S (m(ref \<mapsto> env\<lparr>env_initialized := True\<rparr>)) key =
        mark_initialized (insert ref S) m key"
    using assms by (cases "m key") (auto simp: mark_initialized_def)
qed

lemma initialized_state_Nil [simp]: "initialized_state filename [] st = st"
  by (simp add: initialized_state_def)

lemma initialize_error_Nil [simp]: "initialize_error filename [] w = None"
  by (simp add: initialize_error_def)

lemma initialize_error_Cons:
  "initialize_error filename ((ref, f) # inits) w =
     (case snd (f (PyStr filename) w) of
        Inl e \<Rightarrow> Some e
      | Inr v \<Rightarrow> initialize_error filename inits (fst (f (PyStr filename) w)))"
  by (cases "snd (f (PyStr filename) w)") (simp_all add: initialize_error_def returned_def)

lemma initialized_state_raise:
  assumes "f (PyStr filename) (world st) = (w, Inl e)"
  shows "initialized_state filename ((ref, f) # inits) st =
         emit (Call_initialize ref filename (Inl e)) (st\<lparr>world := w\<rparr>)"
  using assms
  by (simp add: initialized_state_def returned_def calls_until_Cons after_calls_Cons
        initialize_event_def emit_def)

lemma initialized_state_return:
  assumes "f (PyStr filename) (world st) = (w, Inr v)"
  shows "initialized_state filename ((ref, f) # inits) st =
         initialized_state filename inits
           (emit (Call_initialize ref filename (Inr v))
              (st\<lparr>world := w, scripts := mark_initialized {ref} (scripts st)\<rparr>))"
proof -
  have r: "returned (ref, Inr v, w)" by (simp add: returned_def)
  show ?thesis
    using assms r
    by (simp add: initialized_state_def calls_until_Cons after_calls_def world_after_Cons
          initialize_event_def emit_def mark_initialized_mark)
qed

lemma mark_initialized_single:
  "m ref = Some env \<Longrightarrow> mark_initialized {ref} m = m(ref \<mapsto> env\<lparr>env_initialized := True\<rparr>)"
  by (auto simp: mark_initialized_def fun_eq_iff option.map_ident)

lemma initialized_state_frame:
  "capture_filter_scripts (initialized_state filename inits st) = capture_filter_scripts st"
  "process_capture_scripts (initialized_state filename inits st) = process_capture_scripts st"
  "scripts (initialized_state filename inits st) =
     mark_initialized
       (fst ` set (takeWhile returned (call_each inits (PyStr filename) (world st)))) (scripts st)"
  "world (initialized_state filename inits st) =
     world_after (world st) (calls_until returned (call_each inits (PyStr filename) (world st)))"
  by (simp_all add: initialized_state_def after_calls_def)


lemma pending_Cons_flagged:
  assumes "is_initialized st ref"
  shows "pending st (ref # refs) = pending st refs"
proof -
  have "filter (\<lambda>r. \<not> is_initialized st r) (filter (\<lambda>y. y \<noteq> ref) (first_occurrences refs)) =
        filter (\<lambda>r. \<not> is_initialized st r) (first_occurrences refs)"
    using assms by (auto intro: filter_cong)
  then show ?thesis using assms by (simp add: pending_def)
qed

lemma pending_Cons_unflagged:
  assumes "\<not> is_initialized st ref"
  shows "pending st (ref # refs) = ref # filter (\<lambda>r. r \<noteq> ref) (pending st refs)"
proof -
  have "filter (\<lambda>r. \<not> is_initialized st r) (filter (\<lambda>y. y \<noteq> ref) (first_occurrences refs)) =
        filter (\<lambda>r. r \<noteq> ref) (filter (\<lambda>r. \<not> is_initialized st r) (first_occurrences refs))"
    by (auto intro: filter_cong)
  then show ?thesis using assms by (simp add: pending_def)
qed

lemma pending_after_initialize:
  assumes "\<And>r. is_initialized st1 r = (is_initialized st r \<or> r = ref)"
  shows "pending st1 refs = filter (\<lambda>r. r \<noteq> ref) (pending st refs)"
proof -
  have "filter (\<lambda>r. \<not> is_initialized st1 r) (first_occurrences refs) =
        filter (\<lambda>r. r \<noteq> ref) (filter (\<lambda>r. \<not> is_initialized st r) (first_occurrences refs))"
    using assms by (auto intro: filter_cong)
  then show ?thesis by (simp add: pending_def)
qed

lemma capability_functions_filter_ne:
  assumes "\<not> has_capability st cap ref"
  shows "capability_functions st cap (filter (\<lambda>r. r \<noteq> ref) xs) = capability_functions st cap xs"
proof -
  have "capability_functions st cap (filter (\<lambda>r. r \<noteq> ref) xs) =
        capability_functions st cap (filter (\<lambda>r. True) xs)"
    using assms by (intro capability_functions_filter_cong) auto
  then show ?thesis by simp
qed

lemma capability_functions_pointwise:
  assumes "\<And>r. r \<in> set refs \<Longrightarrow>
             map_option env_functions (scripts t r) = map_option env_functions (scripts s r)"
  shows "capability_functions t cap refs = capability_functions s cap refs"
  using assms
proof (induction refs)
  case Nil
  show ?case by simp
next
  case (Cons r rs)
  have "map_option env_functions (scripts t r) = map_option env_functions (scripts s r)"
    using Cons.prems by simp
  moreover have "capability_functions t cap rs = capability_functions s cap rs"
    using Cons by simp
  ultimately show ?case
    by (cases "scripts s r"; cases "scripts t r") (auto split: option.splits)
qed

lemma setup_scripts_spec:
  "setup_scripts cap filename refs acc st =
     (initialized_state filename (capability_functions st ''initialize'' (pending st refs)) st,
      (case initialize_error filename
              (capability_functions st ''initialize'' (pending st refs)) (world st) of
         None \<Rightarrow> Inr (acc @ capability_functions st cap refs)
       | Some e \<Rightarrow> Inl e))"
proof (induction refs arbitrary: acc st)
  case Nil
  show ?case by (simp add: pending_def)
next
  case (Cons ref refs)
  let ?I = "\<lambda>s rs. capability_functions s ''initialize'' (pending s rs)"
  show ?case
  proof (cases "has_capability st ''initialize'' ref \<and> \<not> is_initialized st ref")
    case False
    have same_inits: "?I st (ref # refs) = ?I st refs"
    proof (cases "is_initialized st ref")
      case True
      then show ?thesis by (simp add: pending_Cons_flagged)
    next
      case unflagged: False
      then have nc: "\<not> has_capability st ''initialize'' ref" using False by simp
      show ?thesis
        using nc
        by (simp only: pending_Cons_unflagged[OF unflagged]
              capability_functions_no_capability[OF nc] capability_functions_filter_ne[OF nc])
    qed
    show ?thesis
    proof (cases "scripts st ref")
      case None
      then show ?thesis using Cons.IH[of acc st] same_inits by (simp split: option.splits)
    next
      case (Some env)
      have quiet: "run_initializer filename ref env st = (st, Inr ())"
        using False Some
        by (auto simp: run_initializer_def has_capability_def is_initialized_def
              split: option.splits)
      show ?thesis
      proof (cases "env_functions env cap")
        case None
        then show ?thesis using Some quiet Cons.IH[of acc st] same_inits
          by (simp split: option.splits)
      next
        case (Some f)
        then show ?thesis
          using \<open>scripts st ref = Some env\<close> quiet Cons.IH[of "acc @ [(ref, f)]" st] same_inits
          by (simp split: option.splits)
      qed
    qed
  next
    case True
    then obtain env initializer where env: "scripts st ref = Some env"
      and ini: "env_functions env ''initialize'' = Some initializer"
      and unflagged: "\<not> env_initialized env"
      by (auto simp: has_capability_def is_initialized_def split: option.splits)
    have nf: "\<not> is_initialized st ref" using True by simp
    have inits: "?I st (ref # refs) =
        (ref, initializer) # capability_functions st ''initialize''
                               (filter (\<lambda>r. r \<noteq> ref) (pending st refs))"
      using env ini by (simp add: pending_Cons_unflagged[OF nf])
    obtain w res where call: "initializer (PyStr filename) (world st) = (w, res)"
      by (cases "initializer (PyStr filename) (world st)")
    show ?thesis
    proof (cases res)
      case (Inl e)
      have code: "setup_scripts cap filename (ref # refs) acc st =
          (emit (Call_initialize ref filename (Inl e)) (st\<lparr>world := w\<rparr>), Inl e)"
        using env ini unflagged call Inl by (simp add: run_initializer_def)
      show ?thesis
        unfolding code inits
        using call Inl
        by (simp add: initialized_state_raise initialize_error_Cons)
    next
      case (Inr v)
      let ?st1 = "emit (Call_initialize ref filename (Inr v))
                    (st\<lparr>world := w,
                        scripts := (scripts st)(ref \<mapsto> env\<lparr>env_initialized := True\<rparr>)\<rparr>)"
      have ri: "run_initializer filename ref env st = (?st1, Inr ())"
        using ini unflagged call Inr by (simp add: run_initializer_def)
      have fl: "is_initialized ?st1 r = (is_initialized st r \<or> r = ref)" for r
        by (simp add: is_initialized_def emit_def)
      have cf: "capability_functions ?st1 c rs = capability_functions st c rs" for c rs
        using env by (intro capability_functions_pointwise) (simp add: emit_def)
      have w1: "world ?st1 = w" by (simp add: emit_def)
      have inits1: "?I ?st1 refs =
          capability_functions st ''initialize'' (filter (\<lambda>r. r \<noteq> ref) (pending st refs))"
        by (simp add: cf pending_after_initialize[of ?st1 st ref, OF fl])
      have spec_state: "initialized_state filename (?I st (ref # refs)) st =
          initialized_state filename (?I ?st1 refs) ?st1"
        unfolding inits inits1
        using call Inr env
        by (simp add: initialized_state_return mark_initialized_single)
      have spec_err: "initialize_error filename (?I st (ref # refs)) (world st) =
          initialize_error filename (?I ?st1 refs) (world ?st1)"
        unfolding inits inits1 w1 using call Inr by (simp add: initialize_error_Cons)
      show ?thesis
      proof (cases "env_functions env cap")
        case None
        have code: "setup_scripts cap filename (ref # refs) acc st =
            setup_scripts cap filename refs acc ?st1"
          using env ri None by simp
        show ?thesis
          unfolding code Cons.IH[of acc ?st1] spec_state spec_err
          using env None by (simp add: cf split: option.splits)
      next
        case (Some f)
        have code: "setup_scripts cap filename (ref # refs) acc st =
            setup_scripts cap filename refs (acc @ [(ref, f)]) ?st1"
          using env ri Some by simp
        show ?thesis
          unfolding code Cons.IH[of "acc @ [(ref, f)]" ?st1] spec_state spec_err
          using env Some by (simp add: cf split: option.splits)
      qed
    qed
  qed
qed


lemma initialize_error_None_calls:
  assumes "initialize_error filename inits w = None"
  shows "takeWhile returned (call_each inits (PyStr filename) w) =
           call_each inits (PyStr filename) w"
    and "calls_until returned (call_each inits (PyStr filename) w) =
           call_each inits (PyStr filename) w"
proof -
  have d: "dropWhile returned (call_each inits (PyStr filename) w) = []"
    using assms by (simp add: initialize_error_def split: list.splits)
  then show tw: "takeWhile returned (call_each inits (PyStr filename) w) =
           call_each inits (PyStr filename) w"
    by (metis append_Nil2 takeWhile_dropWhile_id)
  show "calls_until returned (call_each inits (PyStr filename) w) =
           call_each inits (PyStr filename) w"
    unfolding calls_until_def d tw by simp
qed

lemma initialize_error_append:
  "initialize_error filename (I1 @ I2) w =
     (case initialize_error filename I1 w of
        Some e \<Rightarrow> Some e
      | None \<Rightarrow> initialize_error filename I2
                  (world_after w (call_each I1 (PyStr filename) w)))"
proof (induction I1 arbitrary: w)
  case Nil
  show ?case by simp
next
  case (Cons a I1)
  obtain ref f where a: "a = (ref, f)" by (cases a)
  show ?case
  proof (cases "snd (f (PyStr filename) w)")
    case (Inl e)
    then show ?thesis by (simp add: a initialize_error_Cons)
  next
    case (Inr v)
    then show ?thesis
      using Cons[of "fst (f (PyStr filename) w)"]
      by (simp add: a initialize_error_Cons world_after_Cons split: option.splits)
  qed
qed

lemma initialized_state_append:
  "initialized_state filename (I1 @ I2) st =
     (if initialize_error filename I1 (world st) = None
      then initialized_state filename I2 (initialized_state filename I1 st)
      else initialized_state filename I1 st)"
proof (induction I1 arbitrary: st)
  case Nil
  show ?case by simp
next
  case (Cons a I1)
  obtain ref f where a: "a = (ref, f)" by (cases a)
  obtain w res where call: "f (PyStr filename) (world st) = (w, res)"
    by (cases "f (PyStr filename) (world st)")
  show ?case
  proof (cases res)
    case (Inl e)
    have "initialize_error filename (a # I1) (world st) = Some e"
      using call Inl by (simp add: a initialize_error_Cons)
    moreover have "initialized_state filename ((a # I1) @ I2) st =
        initialized_state filename (a # I1) st"
      using call Inl
      by (simp add: a initialized_state_raise[of f filename st w e])
    ultimately show ?thesis by simp
  next
    case (Inr v)
    let ?st1 = "emit (Call_initialize ref filename (Inr v))
                  (st\<lparr>world := w, scripts := mark_initialized {ref} (scripts st)\<rparr>)"
    have w1: "world ?st1 = w" by (simp add: emit_def)
    have e1: "initialize_error filename (a # I1) (world st) =
        initialize_error filename I1 (world ?st1)"
      unfolding w1 using call Inr by (simp add: a initialize_error_Cons)
    have s1: "initialized_state filename ((ref, f) # I) st = initialized_state filename I ?st1"
      for I
      using call Inr by (simp add: initialized_state_return[of f filename st w v])
    show ?thesis
      unfolding e1 using Cons[of ?st1] s1[of "I1 @ I2"] s1[of I1] by (simp add: a)
  qed
qed

lemma has_capability_file_start:
  "has_capability (file_start filename st) cap r = has_capability st cap r"
  by (cases "scripts st r")
     (simp_all add: has_capability_def file_start_def reset_initialized_def emit_def)

lemma capability_functions_file_start:
  "capability_functions (file_start filename st) cap refs = capability_functions st cap refs"
  by (rule capability_functions_same) (rule file_start_props)

lemma pending_file_start:
  "pending (file_start filename st) refs = first_occurrences refs"
  by (simp add: pending_def file_start_props)

lemma world_file_start: "world (file_start filename st) = world st"
  by (simp add: file_start_def reset_initialized_def emit_def)

lemma capability_functions_initialized_state:
  "capability_functions (initialized_state filename inits st) cap refs =
     capability_functions st cap refs"
proof (rule capability_functions_pointwise)
  fix r
  show "map_option env_functions (scripts (initialized_state filename inits st) r) =
        map_option env_functions (scripts st r)"
    by (cases "scripts st r") (simp_all add: initialized_state_frame mark_initialized_def)
qed

lemma is_initialized_initialized_state:
  assumes "initialize_error filename inits (world st) = None"
    and "has_capability st cap r" and "\<not> is_initialized st r"
  shows "is_initialized (initialized_state filename inits st) r = (r \<in> fst ` set inits)"
proof -
  obtain env where env: "scripts st r = Some env"
    using assms(2) by (auto simp: has_capability_def split: option.splits)
  have "fst ` set (call_each inits (PyStr filename) (world st)) = fst ` set inits"
    using fst_call_each[of inits "PyStr filename" "world st"] by (metis set_map)
  then show ?thesis
    using env assms(3)
    by (simp add: is_initialized_def initialized_state_frame mark_initialized_def
          initialize_error_None_calls[OF assms(1)])
qed

lemma setup_file_spec: "setup_file filename st = spec_setup filename st"
proof -
  let ?st0 = "file_start filename st"
  let ?cf = "capture_filter_scripts st"
  let ?pc = "process_capture_scripts st"
  let ?I1 = "capability_functions st ''initialize'' (first_occurrences ?cf)"
  let ?I2 = "capability_functions st ''initialize''
               (filter (\<lambda>y. y \<notin> set ?cf) (first_occurrences ?pc))"
  let ?fs = "capability_functions st ''capture_filter'' ?cf"
  let ?ps = "capability_functions st ''process_capture'' ?pc"
  let ?st1 = "initialized_state filename ?I1 ?st0"
  have inits: "spec_initializers st = ?I1 @ ?I2"
    by (simp add: spec_initializers_def first_occurrences_append capability_functions_append)
  have loop1: "setup_scripts ''capture_filter'' filename (capture_filter_scripts ?st0) [] ?st0 =
      (?st1, case initialize_error filename ?I1 (world st) of
               None \<Rightarrow> Inr ?fs | Some e \<Rightarrow> Inl e)"
    by (simp add: setup_scripts_spec file_start_props(5) pending_file_start
          capability_functions_file_start world_file_start split: option.splits)
  have code: "setup_file filename st =
      (case setup_scripts ''capture_filter'' filename (capture_filter_scripts ?st0) [] ?st0 of
         (st1, Inl e) \<Rightarrow> (st1, Inl e)
       | (st1, Inr filters) \<Rightarrow>
           (case setup_scripts ''process_capture'' filename
                   (process_capture_scripts st1) [] st1 of
              (st2, Inl e) \<Rightarrow> (st2, Inl e)
            | (st2, Inr processors) \<Rightarrow> (st2, Inr (filters, processors))))"
    by (simp add: setup_file_def file_start_def Let_def)
  show ?thesis
  proof (cases "initialize_error filename ?I1 (world st)")
    case (Some e)
    have "setup_file filename st = (?st1, Inl e)"
      unfolding code loop1 using Some by simp
    moreover have "spec_setup filename st = (?st1, Inl e)"
      using Some
      by (simp add: spec_setup_def inits initialized_state_append initialize_error_append
            world_file_start)
    ultimately show ?thesis by simp
  next
    case None
    have none0: "initialize_error filename ?I1 (world ?st0) = None"
      using None by (simp add: world_file_start)
    have pc1: "process_capture_scripts ?st1 = ?pc"
      by (simp add: initialized_state_frame file_start_props(6))
    have w1: "world ?st1 = world_after (world st) (call_each ?I1 (PyStr filename) (world st))"
      using initialize_error_None_calls(2)[OF None]
      by (simp add: initialized_state_frame world_file_start)
    have "capability_functions st ''initialize''
            (filter (\<lambda>r. \<not> is_initialized ?st1 r) (first_occurrences ?pc)) = ?I2"
    proof (rule capability_functions_filter_cong)
      fix r
      assume "r \<in> set (first_occurrences ?pc)" and hc: "has_capability st ''initialize'' r"
      have "is_initialized ?st1 r = (r \<in> fst ` set ?I1)"
        using none0 hc
        by (intro is_initialized_initialized_state[where cap = "''initialize''"])
           (simp_all add: has_capability_file_start file_start_props(4))
      also have "\<dots> = (r \<in> set ?cf)"
        using hc by (simp add: fst_capability_functions)
      finally show "(\<not> is_initialized ?st1 r) = (r \<notin> set ?cf)" by simp
    qed
    then have I2: "capability_functions ?st1 ''initialize'' (pending ?st1 ?pc) = ?I2"
      by (simp add: pending_def capability_functions_initialized_state
            capability_functions_file_start)
    have loop2: "setup_scripts ''process_capture'' filename (process_capture_scripts ?st1) [] ?st1 =
        (initialized_state filename ?I2 ?st1,
         case initialize_error filename ?I2 (world ?st1) of
           None \<Rightarrow> Inr ?ps | Some e \<Rightarrow> Inl e)"
      unfolding pc1 setup_scripts_spec I2
      by (simp add: capability_functions_initialized_state capability_functions_file_start
            split: option.splits)
    have lhs: "setup_file filename st =
        (initialized_state filename ?I2 ?st1,
         case initialize_error filename ?I2 (world ?st1) of
           None \<Rightarrow> Inr (?fs, ?ps) | Some e \<Rightarrow> Inl e)"
      unfolding code loop1 using None
      by (simp add: loop2 split: option.splits)
    have rhs: "spec_setup filename st =
        (initialized_state filename ?I2 ?st1,
         case initialize_error filename ?I2 (world ?st1) of
           None \<Rightarrow> Inr (?fs, ?ps) | Some e \<Rightarrow> Inl e)"
      unfolding w1 using None none0
      by (simp add: spec_setup_def inits initialized_state_append initialize_error_append
            split: option.splits)
    show ?thesis unfolding lhs rhs ..
  qed
qed

section \<open>The record loop does not touch the script dictionaries\<close>

lemma spec_filters_scripts:
  "spec_filters fs c (st\<lparr>scripts := m\<rparr>) =
     ((fst (spec_filters fs c st))\<lparr>scripts := m\<rparr>, snd (spec_filters fs c st))"
  by (simp add: spec_filters_def after_calls_def)

lemma spec_processors_scripts:
  "spec_processors ps c (st\<lparr>scripts := m\<rparr>) =
     ((fst (spec_processors ps c st))\<lparr>scripts := m\<rparr>, snd (spec_processors ps c st))"
  by (simp add: spec_processors_def after_calls_def)

lemma one_capture_scripts:
  "one_capture X fs ps result (st\<lparr>scripts := m\<rparr>) =
     ((fst (one_capture X fs ps result st))\<lparr>scripts := m\<rparr>, snd (one_capture X fs ps result st))"
proof (cases "adapt X result")
  case (Inl e)
  then show ?thesis by (simp add: one_capture_def)
next
  case (Inr capture)
  obtain st1 r1 where f: "spec_filters fs capture st = (st1, r1)"
    by (cases "spec_filters fs capture st")
  show ?thesis
    using Inr f
    by (simp add: one_capture_def run_filters_spec run_processors_spec
          spec_filters_scripts[where fs = fs and c = capture and st = st and m = m]
          spec_processors_scripts split: sum.splits)
qed

lemma capture_loop_scripts:
  "capture_loop X fs ps stream (st\<lparr>scripts := m\<rparr>) =
     ((fst (capture_loop X fs ps stream st))\<lparr>scripts := m\<rparr>, snd (capture_loop X fs ps stream st))"
proof (induction stream arbitrary: st)
  case Stop
  show ?case by simp
next
  case (Raise e)
  show ?case by simp
next
  case (Yield result rest)
  obtain st1 r1 where o: "one_capture X fs ps result st = (st1, r1)"
    by (cases "one_capture X fs ps result st")
  show ?case
    using Yield[of st1] o
    by (simp add: one_capture_scripts[where X = X and fs = fs and ps = ps and result = result
            and st = st and m = m] split: sum.splits)
qed

lemma map_fst_capability_functions:
  "map fst (capability_functions st cap refs) = filter (has_capability st cap) refs"
  by (induction refs) (auto simp: has_capability_def split: option.splits)

lemma set_capability_functions:
  "set (capability_functions st cap refs) =
     {(ref, f). ref \<in> set refs \<and>
                (\<exists>script_env. scripts st ref = Some script_env \<and>
                              env_functions script_env cap = Some f)}"
  by (induction refs) (auto split: option.splits)


lemma spec_initializers_names:
  "map fst (spec_initializers st) =
     filter (has_capability st ''initialize'')
       (first_occurrences (capture_filter_scripts st @ process_capture_scripts st))"
  by (simp add: spec_initializers_def map_fst_capability_functions)

lemma parse_one_file_setup:
  "parse_one_file X filename func st =
     (case spec_setup filename st of
        (st2, Inl e) \<Rightarrow> (st2, Inl e)
      | (st2, Inr (filters, processors)) \<Rightarrow>
          (case capture_loop X filters processors
                  (run_parser X func filename (world st2)) st2 of
             (st3, Inl error) \<Rightarrow>
               (if isinstance_Exception error
                then (emit (Print (exn_msg error)) st3, Inl error)
                else (st3, Inl error))
           | (st3, Inr u) \<Rightarrow> (st3, Inr ())))"
  by (simp add: parse_one_file_def setup_file_spec)

lemma spec_setup_state:
  "scripts (fst (spec_setup filename st)) =
     (\<lambda>key. map_option
        (\<lambda>script_env. script_env\<lparr>env_initialized :=
           key \<in> fst ` set (takeWhile returned
                   (call_each (spec_initializers st) (PyStr filename) (world st)))\<rparr>)
        (scripts st key))"
  "world (fst (spec_setup filename st)) =
     world_after (world st)
       (calls_until returned (call_each (spec_initializers st) (PyStr filename) (world st)))"
  "trace (fst (spec_setup filename st)) =
     trace st @ StderrWrite (''processing ['' @ filename @ '']'' @ [CHR 0x0A]) #
       map (initialize_event filename)
         (calls_until returned (call_each (spec_initializers st) (PyStr filename) (world st)))"
proof -
  show "scripts (fst (spec_setup filename st)) =
     (\<lambda>key. map_option
        (\<lambda>script_env. script_env\<lparr>env_initialized :=
           key \<in> fst ` set (takeWhile returned
                   (call_each (spec_initializers st) (PyStr filename) (world st)))\<rparr>)
        (scripts st key))"
  proof
    fix key
    show "scripts (fst (spec_setup filename st)) key =
       map_option
        (\<lambda>script_env. script_env\<lparr>env_initialized :=
           key \<in> fst ` set (takeWhile returned
                   (call_each (spec_initializers st) (PyStr filename) (world st)))\<rparr>)
        (scripts st key)"
      by (cases "scripts st key")
         (simp_all add: spec_setup_def initialized_state_frame(3) world_file_start
            mark_initialized_def file_start_def reset_initialized_def emit_def)
  qed
  show "world (fst (spec_setup filename st)) =
     world_after (world st)
       (calls_until returned (call_each (spec_initializers st) (PyStr filename) (world st)))"
    by (simp add: spec_setup_def initialized_state_frame(4) world_file_start)
  show "trace (fst (spec_setup filename st)) =
     trace st @ StderrWrite (''processing ['' @ filename @ '']'' @ [CHR 0x0A]) #
       map (initialize_event filename)
         (calls_until returned (call_each (spec_initializers st) (PyStr filename) (world st)))"
    by (simp add: spec_setup_def initialized_state_def after_calls_def world_file_start
          file_start_def reset_initialized_def emit_def)
qed

lemma spec_setup_completes:
  assumes "\<not> isl (snd (spec_setup filename st))"
  shows "calls_until returned (call_each (spec_initializers st) (PyStr filename) (world st)) =
           call_each (spec_initializers st) (PyStr filename) (world st)"
proof -
  have "initialize_error filename (spec_initializers st) (world st) = None"
    using assms by (simp add: spec_setup_def split: option.splits)
  then show ?thesis by (rule initialize_error_None_calls(2))
qed

lemma spec_initializers_same:
  assumes "same_plugins st st'"
  shows "spec_initializers st' = spec_initializers st"
  using assms capability_functions_same[OF assms]
  by (simp add: spec_initializers_def same_plugins_def)

section \<open>C1: what a filter receives\<close>

text \<open>
  C1, as stated, fails. The filter loop assigns the value a filter returns to
  \<^verbatim>\<open>result\<close> and tests it, and calls the next filter with \<^verbatim>\<open>capture\<close> again: with a
  first filter that returns another capture and a second one, the second receives the
  adapted capture 0, not the capture 1 that the first returned.
\<close>

theorem filters_chained_counterexample:
  "filter_calls (events_since (init_raft 0) (fst (run_filters demo_rewrite_keep 0 (init_raft 0))))
     = [(''rewrite.py'', 0), (''keep.py'', 0)]
   \<and> filter_results (events_since (init_raft 0) (fst (run_filters demo_rewrite_keep 0 (init_raft 0))))
     = [Inr (PyCapture 1), Inr (PyCapture 0)]
   \<and> \<not> spec_chained
        (map snd (filter_calls
           (events_since (init_raft 0) (fst (run_filters demo_rewrite_keep 0 (init_raft 0))))))
        (filter_results
           (events_since (init_raft 0) (fst (run_filters demo_rewrite_keep 0 (init_raft 0)))))"
  by (simp add: demo_rewrite_keep_def demo_rewrite_def demo_keep_def init_raft_def emit_def
        events_since_def)

text \<open>
  C1, amended: for every record that the adapter turns into a capture, the filters are
  called in list order and every one of them is given the adapted capture itself; the
  value a filter returns is only tested. While the value returned is truthy the next
  filter is called; when a filter returns a falsy value no later filter and no
  processor is called and the record is done; when a filter raises, the record raises;
  when every filter has returned a truthy value the processors are run on the capture.
  The calls, the world they leave and the trace are those of \<open>spec_filters\<close>.
\<close>

theorem filters_given_adapted_capture:
  assumes "adapt X result = Inr capture"
  shows "one_capture X filters processors result st =
           (case spec_filters filters capture st of
              (st1, Inl e) \<Rightarrow> (st1, Inl e)
            | (st1, Inr skip) \<Rightarrow>
                (if skip then (st1, Inr ()) else run_processors processors capture st1))"
  using assms by (simp add: one_capture_def run_filters_spec split: prod.splits sum.splits)

theorem filters_given_adapted_capture_witness:
  "adapt demo_externals 0 = Inr 0
   \<and> one_capture demo_externals demo_rewrite_keep demo_store 0 (init_raft 0) =
       (\<lparr>world = 3,
         trace = [Call_capture_filter ''rewrite.py'' 0 (Inr (PyCapture 1)),
                  Call_capture_filter ''keep.py'' 0 (Inr (PyCapture 0)),
                  Call_process_capture ''store.py'' 0 (Inr (PyCapture 0))],
         scripts = Map.empty, capture_filter_scripts = [], process_capture_scripts = []\<rparr>,
        Inr ())
   \<and> one_capture demo_externals demo_drop_keep demo_store 0 (init_raft 0) =
       (\<lparr>world = 1,
         trace = [Call_capture_filter ''drop.py'' 0 (Inr PyNone)],
         scripts = Map.empty, capture_filter_scripts = [], process_capture_scripts = []\<rparr>,
        Inr ())"
proof -
  have h: "adapt demo_externals 0 = Inr 0" by (simp add: demo_externals_def)
  show ?thesis
    using h
      filters_given_adapted_capture [OF h, of demo_rewrite_keep demo_store "init_raft 0"]
      filters_given_adapted_capture [OF h, of demo_drop_keep demo_store "init_raft 0"]
    by (simp add: spec_run_defs demo_rewrite_keep_def demo_drop_keep_def demo_store_def
          demo_rewrite_def demo_keep_def demo_drop_def init_raft_def emit_def)
qed

section \<open>C2: skipped records and the processors\<close>

text \<open>
  C2: the record loop does to the records of a stream, in order, what \<open>spec_records\<close>
  says: a record for which a filter call returns a falsy value has no processor called
  and the loop goes on with the next record; a record that every filter lets through has
  every processor called, in list order, each with the same capture, the one the filters
  were given, whatever the processors return. For a file, the filters and processors are
  the \<^verbatim>\<open>capture_filter\<close> functions of the scripts of \<^verbatim>\<open>self.capture_filter_scripts\<close>
  and the \<^verbatim>\<open>process_capture\<close> functions of the scripts of
  \<^verbatim>\<open>self.process_capture_scripts\<close>, in the order of these lists; and when the scripts
  load, these lists are the files of the two options in the order of the command line,
  in the state in which process_args runs the loop over the files.
\<close>

theorem processors_after_filters:
  "capture_loop X filters processors (foldr Yield results Stop) st =
     spec_records X filters processors results st
   \<and> (snd (setup_file filename st0) = Inr (fs, ps) \<and>
       run_parser X func filename (world (fst (setup_file filename st0))) =
         foldr Yield results Stop \<longrightarrow>
       fs = capability_functions st0 ''capture_filter'' (capture_filter_scripts st0) \<and>
       ps = capability_functions st0 ''process_capture'' (process_capture_scripts st0) \<and>
       parse_one_file X filename func st0 =
         (case spec_records X
                 (capability_functions st0 ''capture_filter'' (capture_filter_scripts st0))
                 (capability_functions st0 ''process_capture'' (process_capture_scripts st0))
                 results (fst (setup_file filename st0)) of
            (st2, Inl error) \<Rightarrow>
              (if isinstance_Exception error then emit (Print (exn_msg error)) st2 else st2,
               Inl error)
          | (st2, Inr u) \<Rightarrow> (st2, Inr ())))
   \<and> (\<not> isl (snd (load_all X a s)) \<longrightarrow>
       capture_filter_scripts (fst (load_all X a s)) = script_args (arg_capture_filter a) \<and>
       process_capture_scripts (fst (load_all X a s)) = script_args (arg_process_capture a) \<and>
       process_args_rest X a s =
         (if arg_import a then (fst (load_all X a s), Inr 0)
          else if arg_parse a then
            (case run_parse_process_loop X a (fst (load_all X a s)) of
               (st3, Inl e) \<Rightarrow> (st3, Inl e)
             | (st3, Inr u) \<Rightarrow> (st3, Inr 0))
          else (emit (StderrWrite ([CHR 0x0A] @ ''No recognized options'' @ [CHR 0x0A]))
                  (fst (load_all X a s)), Inr 0)))"
proof -
  have 1: "capture_loop X filters processors (foldr Yield results Stop) st =
     spec_records X filters processors results st"
    by (rule capture_loop_spec)
  have 2: "snd (setup_file filename st0) = Inr (fs, ps) \<and>
       run_parser X func filename (world (fst (setup_file filename st0))) =
         foldr Yield results Stop \<longrightarrow>
       fs = capability_functions st0 ''capture_filter'' (capture_filter_scripts st0) \<and>
       ps = capability_functions st0 ''process_capture'' (process_capture_scripts st0) \<and>
       parse_one_file X filename func st0 =
         (case spec_records X
                 (capability_functions st0 ''capture_filter'' (capture_filter_scripts st0))
                 (capability_functions st0 ''process_capture'' (process_capture_scripts st0))
                 results (fst (setup_file filename st0)) of
            (st2, Inl error) \<Rightarrow>
              (if isinstance_Exception error then emit (Print (exn_msg error)) st2 else st2,
               Inl error)
          | (st2, Inr u) \<Rightarrow> (st2, Inr ()))"
  proof
    assume h: "snd (setup_file filename st0) = Inr (fs, ps) \<and>
       run_parser X func filename (world (fst (setup_file filename st0))) =
         foldr Yield results Stop"
    note sf = setup_file_functions[OF conjunct1[OF h]]
    obtain st1 where s: "setup_file filename st0 = (st1, Inr (fs, ps))"
      using h by (cases "setup_file filename st0") simp
    have stream: "run_parser X func filename (world st1) = foldr Yield results Stop"
      using h s by simp
    have "parse_one_file X filename func st0 =
         (case spec_records X fs ps results st1 of
            (st2, Inl error) \<Rightarrow>
              (if isinstance_Exception error then emit (Print (exn_msg error)) st2 else st2,
               Inl error)
          | (st2, Inr u) \<Rightarrow> (st2, Inr ()))"
      by (simp add: parse_one_file_def s stream capture_loop_spec split: prod.splits sum.splits)
    then show "fs = capability_functions st0 ''capture_filter'' (capture_filter_scripts st0) \<and>
       ps = capability_functions st0 ''process_capture'' (process_capture_scripts st0) \<and>
       parse_one_file X filename func st0 =
         (case spec_records X
                 (capability_functions st0 ''capture_filter'' (capture_filter_scripts st0))
                 (capability_functions st0 ''process_capture'' (process_capture_scripts st0))
                 results (fst (setup_file filename st0)) of
            (st2, Inl error) \<Rightarrow>
              (if isinstance_Exception error then emit (Print (exn_msg error)) st2 else st2,
               Inl error)
          | (st2, Inr u) \<Rightarrow> (st2, Inr ()))"
      using sf s by simp
  qed
  have 3: "\<not> isl (snd (load_all X a s)) \<longrightarrow>
       capture_filter_scripts (fst (load_all X a s)) = script_args (arg_capture_filter a) \<and>
       process_capture_scripts (fst (load_all X a s)) = script_args (arg_process_capture a) \<and>
       process_args_rest X a s =
         (if arg_import a then (fst (load_all X a s), Inr 0)
          else if arg_parse a then
            (case run_parse_process_loop X a (fst (load_all X a s)) of
               (st3, Inl e) \<Rightarrow> (st3, Inl e)
             | (st3, Inr u) \<Rightarrow> (st3, Inr 0))
          else (emit (StderrWrite ([CHR 0x0A] @ ''No recognized options'' @ [CHR 0x0A]))
                  (fst (load_all X a s)), Inr 0))"
  proof
    assume ok: "\<not> isl (snd (load_all X a s))"
    obtain s2 r2 where la: "load_all X a s = (s2, r2)" by (cases "load_all X a s")
    have r2: "r2 = Inr ()" using ok la by (cases r2) simp_all
    show "capture_filter_scripts (fst (load_all X a s)) = script_args (arg_capture_filter a) \<and>
       process_capture_scripts (fst (load_all X a s)) = script_args (arg_process_capture a) \<and>
       process_args_rest X a s =
         (if arg_import a then (fst (load_all X a s), Inr 0)
          else if arg_parse a then
            (case run_parse_process_loop X a (fst (load_all X a s)) of
               (st3, Inl e) \<Rightarrow> (st3, Inl e)
             | (st3, Inr u) \<Rightarrow> (st3, Inr 0))
          else (emit (StderrWrite ([CHR 0x0A] @ ''No recognized options'' @ [CHR 0x0A]))
                  (fst (load_all X a s)), Inr 0))"
      using load_all_lists[OF ok] by (simp add: process_args_rest_load_all la r2)
  qed
  show ?thesis using 1 2 3 by blast
qed

theorem processors_after_filters_witness:
  "snd (setup_file ''a.xml'' demo_loaded) =
     Inr ([(''both.py'', demo_drop_odd)], [(''store.py'', demo_keep), (''both.py'', demo_keep)])
   \<and> run_parser demo_externals raft_parse_xml ''a.xml''
        (world (fst (setup_file ''a.xml'' demo_loaded))) = foldr Yield [1, 2, 3] Stop
   \<and> \<not> isl (snd (load_all demo_externals demo_args (init_raft 0)))
   \<and> process_capture_scripts (fst (load_all demo_externals demo_args (init_raft 0))) =
       [''store.py'', ''both.py'']
   \<and> snd (parse_one_file demo_externals ''a.xml'' raft_parse_xml demo_loaded) = Inr ()
   \<and> world (fst (parse_one_file demo_externals ''a.xml'' raft_parse_xml demo_loaded)) = 8
   \<and> events_since demo_loaded
        (fst (parse_one_file demo_externals ''a.xml'' raft_parse_xml demo_loaded)) =
       [StderrWrite (''processing [a.xml]'' @ [CHR 0x0A]),
        Call_initialize ''both.py'' ''a.xml'' (Inr (PyStr ''a.xml'')),
        Call_capture_filter ''both.py'' 1 (Inr PyNone),
        Call_capture_filter ''both.py'' 2 (Inr (PyCapture 2)),
        Call_process_capture ''store.py'' 2 (Inr (PyCapture 2)),
        Call_process_capture ''both.py'' 2 (Inr (PyCapture 2)),
        Call_capture_filter ''both.py'' 3 (Inr PyNone)]"
proof -
  have h1: "snd (setup_file ''a.xml'' demo_loaded) =
     Inr ([(''both.py'', demo_drop_odd)], [(''store.py'', demo_keep), (''both.py'', demo_keep)])"
    by (simp add: setup_file_def reset_initialized_def run_initializer_def demo_loaded_def
          emit_def demo_keep_def)
  have h2: "run_parser demo_externals raft_parse_xml ''a.xml''
        (world (fst (setup_file ''a.xml'' demo_loaded))) = foldr Yield [1, 2, 3] Stop"
    by (simp add: demo_externals_def)
  have h3: "\<not> isl (snd (load_all demo_externals demo_args (init_raft 0)))"
    by (simp add: load_all_def demo_run_defs)
  note t = processors_after_filters [where X = demo_externals and filename = "''a.xml''"
      and ?st0.0 = demo_loaded and fs = "[(''both.py'', demo_drop_odd)]"
      and ps = "[(''store.py'', demo_keep), (''both.py'', demo_keep)]"
      and func = raft_parse_xml and results = "[1, 2, 3]" and a = demo_args
      and s = "init_raft 0" and st = demo_loaded and filters = "[]" and processors = "[]"]
  have p: "parse_one_file demo_externals ''a.xml'' raft_parse_xml demo_loaded =
         (case spec_records demo_externals
                 (capability_functions demo_loaded ''capture_filter'' (capture_filter_scripts demo_loaded))
                 (capability_functions demo_loaded ''process_capture'' (process_capture_scripts demo_loaded))
                 [1, 2, 3] (fst (setup_file ''a.xml'' demo_loaded)) of
            (st2, Inl error) \<Rightarrow>
              (if isinstance_Exception error then emit (Print (exn_msg error)) st2 else st2,
               Inl error)
          | (st2, Inr u) \<Rightarrow> (st2, Inr ()))"
    using t h1 h2 by blast
  have l: "process_capture_scripts (fst (load_all demo_externals demo_args (init_raft 0))) =
       script_args (arg_process_capture demo_args)"
    using t h3 by blast
  have r1: "snd (parse_one_file demo_externals ''a.xml'' raft_parse_xml demo_loaded) = Inr ()"
    unfolding p
    by (simp add: spec_run_defs setup_file_def reset_initialized_def run_initializer_def
          demo_loaded_def demo_externals_def emit_def demo_keep_def demo_drop_odd_def)
  have r2: "world (fst (parse_one_file demo_externals ''a.xml'' raft_parse_xml demo_loaded)) = 8"
    unfolding p
    by (simp add: spec_run_defs setup_file_def reset_initialized_def run_initializer_def
          demo_loaded_def demo_externals_def emit_def demo_keep_def demo_drop_odd_def)
  have r3: "events_since demo_loaded
        (fst (parse_one_file demo_externals ''a.xml'' raft_parse_xml demo_loaded)) =
       [StderrWrite (''processing [a.xml]'' @ [CHR 0x0A]),
        Call_initialize ''both.py'' ''a.xml'' (Inr (PyStr ''a.xml'')),
        Call_capture_filter ''both.py'' 1 (Inr PyNone),
        Call_capture_filter ''both.py'' 2 (Inr (PyCapture 2)),
        Call_process_capture ''store.py'' 2 (Inr (PyCapture 2)),
        Call_process_capture ''both.py'' 2 (Inr (PyCapture 2)),
        Call_capture_filter ''both.py'' 3 (Inr PyNone)]"
    unfolding p
    by (simp add: spec_run_defs setup_file_def reset_initialized_def run_initializer_def
          demo_loaded_def demo_externals_def emit_def demo_keep_def demo_drop_odd_def
          events_since_def)
  have l': "process_capture_scripts (fst (load_all demo_externals demo_args (init_raft 0))) =
       [''store.py'', ''both.py'']"
    using l by (simp add: script_args_def demo_args_def)
  show ?thesis using h1 h2 h3 l' r1 r2 r3 by blast
qed

section \<open>C5: initialize, once per file\<close>

text \<open>
  C5: the set-up of a file is \<open>spec_setup\<close>. (1, 2) parse_one_file does the set-up and
  then runs the record loop, which neither reads nor writes \<^verbatim>\<open>self.scripts\<close> (3), so
  that it calls the filters and processors it is given and nothing else of a script. (4,
  5, 6) The functions called by the set-up are the \<^verbatim>\<open>initialize\<close> functions of the
  registered scripts that have one, one for each script, whether the script is
  registered as a filter, as a processor or as both, once or several times. (7, 8, 9)
  After the set-up the world is the one left by calling each of them once with the name
  of the file, in order, until one raises; the trace has the message and one event for
  each of these calls; and the flag of every cached script is set if its function was
  called and returned, and is unset otherwise, whatever the flag was before the file.
  (10) When the set-up does not raise, every one of these functions has been called.
  (11) The next file has the same functions to call.
\<close>

theorem initialize_once_per_file:
  "setup_file filename st = spec_setup filename st
   \<and> parse_one_file X filename func st =
       (case setup_file filename st of
          (st2, Inl e) \<Rightarrow> (st2, Inl e)
        | (st2, Inr (filters, processors)) \<Rightarrow>
            (case capture_loop X filters processors
                    (run_parser X func filename (world st2)) st2 of
               (st3, Inl error) \<Rightarrow>
                 (if isinstance_Exception error
                  then (emit (Print (exn_msg error)) st3, Inl error)
                  else (st3, Inl error))
             | (st3, Inr u) \<Rightarrow> (st3, Inr ())))
   \<and> capture_loop X fs ps stream (s\<lparr>scripts := m\<rparr>) =
       ((fst (capture_loop X fs ps stream s))\<lparr>scripts := m\<rparr>,
        snd (capture_loop X fs ps stream s))
   \<and> map fst (spec_initializers st) =
       filter (has_capability st ''initialize'')
         (first_occurrences (capture_filter_scripts st @ process_capture_scripts st))
   \<and> distinct (map fst (spec_initializers st))
   \<and> set (spec_initializers st) =
       {(ref, f). ref \<in> set (capture_filter_scripts st) \<union> set (process_capture_scripts st) \<and>
                  (\<exists>script_env. scripts st ref = Some script_env \<and>
                                env_functions script_env ''initialize'' = Some f)}
   \<and> world (fst (setup_file filename st)) =
       world_after (world st)
         (calls_until returned (call_each (spec_initializers st) (PyStr filename) (world st)))
   \<and> trace (fst (setup_file filename st)) =
       trace st @ StderrWrite (''processing ['' @ filename @ '']'' @ [CHR 0x0A]) #
         map (initialize_event filename)
           (calls_until returned (call_each (spec_initializers st) (PyStr filename) (world st)))
   \<and> scripts (fst (setup_file filename st)) =
       (\<lambda>key. map_option
          (\<lambda>script_env. script_env\<lparr>env_initialized :=
             key \<in> fst ` set (takeWhile returned
                     (call_each (spec_initializers st) (PyStr filename) (world st)))\<rparr>)
          (scripts st key))
   \<and> (\<not> isl (snd (setup_file filename st)) \<longrightarrow>
        calls_until returned (call_each (spec_initializers st) (PyStr filename) (world st)) =
          call_each (spec_initializers st) (PyStr filename) (world st))
   \<and> spec_initializers (fst (parse_one_file X filename func st)) = spec_initializers st"
proof -
  have c2: "parse_one_file X filename func st =
       (case setup_file filename st of
          (st2, Inl e) \<Rightarrow> (st2, Inl e)
        | (st2, Inr (filters, processors)) \<Rightarrow>
            (case capture_loop X filters processors
                    (run_parser X func filename (world st2)) st2 of
               (st3, Inl error) \<Rightarrow>
                 (if isinstance_Exception error
                  then (emit (Print (exn_msg error)) st3, Inl error)
                  else (st3, Inl error))
             | (st3, Inr u) \<Rightarrow> (st3, Inr ())))"
    by (simp add: parse_one_file_def)
  have c5: "distinct (map fst (spec_initializers st))"
    unfolding spec_initializers_names by (simp add: distinct_first_occurrences)
  have c6: "set (spec_initializers st) =
       {(ref, f). ref \<in> set (capture_filter_scripts st) \<union> set (process_capture_scripts st) \<and>
                  (\<exists>script_env. scripts st ref = Some script_env \<and>
                                env_functions script_env ''initialize'' = Some f)}"
    by (simp add: spec_initializers_def set_capability_functions)
  have c10: "\<not> isl (snd (setup_file filename st)) \<longrightarrow>
        calls_until returned (call_each (spec_initializers st) (PyStr filename) (world st)) =
          call_each (spec_initializers st) (PyStr filename) (world st)"
    unfolding setup_file_spec using spec_setup_completes by blast
  have "same_plugins st (fst (parse_one_file X filename func st))"
    by (rule parse_one_file_events(2)[of X filename func st _
          "snd (parse_one_file X filename func st)"]) simp
  then have c11: "spec_initializers (fst (parse_one_file X filename func st)) =
      spec_initializers st"
    by (rule spec_initializers_same)
  show ?thesis
    using setup_file_spec[of filename st] c2 capture_loop_scripts[where X = X and fs = fs and ps = ps and stream = stream
        and st = s and m = m]
      spec_initializers_names[of st] c5 c6 spec_setup_state[of filename st] c10 c11
    by (simp only: simp_thms)
qed

theorem initialize_once_per_file_witness:
  "is_initialized
     (demo_loaded\<lparr>scripts := mark_initialized {''both.py''} (scripts demo_loaded)\<rparr>) ''both.py''
   \<and> \<not> isl (snd (setup_file ''a.xml''
          (demo_loaded\<lparr>scripts := mark_initialized {''both.py''} (scripts demo_loaded)\<rparr>)))
   \<and> capture_filter_scripts demo_loaded @ process_capture_scripts demo_loaded =
       [''both.py'', ''store.py'', ''both.py'']
   \<and> spec_initializers
        (demo_loaded\<lparr>scripts := mark_initialized {''both.py''} (scripts demo_loaded)\<rparr>) =
       [(''both.py'', demo_keep)]
   \<and> calls_until returned
        (call_each
           (spec_initializers
              (demo_loaded\<lparr>scripts := mark_initialized {''both.py''} (scripts demo_loaded)\<rparr>))
           (PyStr ''a.xml'') 2) =
       [(''both.py'', Inr (PyStr ''a.xml''), 3)]
   \<and> world (fst (setup_file ''a.xml''
          (demo_loaded\<lparr>scripts := mark_initialized {''both.py''} (scripts demo_loaded)\<rparr>))) = 3
   \<and> trace (fst (setup_file ''a.xml''
          (demo_loaded\<lparr>scripts := mark_initialized {''both.py''} (scripts demo_loaded)\<rparr>))) =
       trace demo_loaded @
         [StderrWrite (''processing [a.xml]'' @ [CHR 0x0A]),
          Call_initialize ''both.py'' ''a.xml'' (Inr (PyStr ''a.xml''))]"
proof -
  let ?D = "demo_loaded\<lparr>scripts := mark_initialized {''both.py''} (scripts demo_loaded)\<rparr>"
  have h0: "is_initialized ?D ''both.py''"
    by (simp add: is_initialized_def demo_loaded_def mark_initialized_def)
  have h1: "\<not> isl (snd (setup_file ''a.xml'' ?D))"
    by (simp add: setup_file_def reset_initialized_def run_initializer_def demo_loaded_def
          mark_initialized_def emit_def demo_keep_def)
  have h2: "capture_filter_scripts demo_loaded @ process_capture_scripts demo_loaded =
       [''both.py'', ''store.py'', ''both.py'']"
    by (simp add: demo_loaded_def)
  have w: "world ?D = 2" by (simp add: demo_loaded_def)
  have i: "spec_initializers ?D = [(''both.py'', demo_keep)]"
    by (simp add: spec_initializers_def demo_loaded_def mark_initialized_def)
  have c: "call_each (spec_initializers ?D) (PyStr ''a.xml'') 2 =
      [(''both.py'', Inr (PyStr ''a.xml''), 3)]"
    unfolding i by (simp add: demo_keep_def)
  note t = initialize_once_per_file [where st = ?D and filename = "''a.xml''"
      and X = demo_externals and func = raft_parse_xml and fs = "[]" and ps = "[]"
      and stream = Stop and s = demo_loaded and m = "scripts demo_loaded"]
  note t6 = t [THEN conjunct2, THEN conjunct2, THEN conjunct2, THEN conjunct2,
      THEN conjunct2, THEN conjunct2]
  note t7 = t6 [THEN conjunct1]
  note t8 = t6 [THEN conjunct2, THEN conjunct1]
  note t10 = t6 [THEN conjunct2, THEN conjunct2, THEN conjunct2, THEN conjunct1]
  have made: "calls_until returned (call_each (spec_initializers ?D) (PyStr ''a.xml'') 2) =
      [(''both.py'', Inr (PyStr ''a.xml''), 3)]"
    using t10 h1 c unfolding w by simp
  have wo: "world (fst (setup_file ''a.xml'' ?D)) = 3"
    using t7 unfolding w made by (simp add: world_after_def)
  have tr: "trace (fst (setup_file ''a.xml'' ?D)) =
       trace demo_loaded @
         [StderrWrite (''processing [a.xml]'' @ [CHR 0x0A]),
          Call_initialize ''both.py'' ''a.xml'' (Inr (PyStr ''a.xml''))]"
    using t8 unfolding w made by (simp add: initialize_event_def)
  show ?thesis using h0 h1 h2 i made wo tr by (simp only: simp_thms)
qed

section \<open>C10: the role of a script comes from its flag\<close>



section \<open>C3: an error while the records of a file are processed\<close>

text \<open>
  C3: the set-up of the file has given the filters and the processors, the parser's stream
  is some records \<open>rs\<close>, processed without error, followed by \<open>tail\<close>, and the next
  pull fails with an error (an instance of Exception, which is what the handler
  catches): the parser raises, or the adapter, a filter or a processor raises on the
  record pulled. Then parse_one_file prints the error and raises it again; the events of
  the file are those up to the failing pull, those of the failing pull, and the print,
  so that no later record is processed, and the error is printed once; the loop over
  the files of the argument stops there, whatever files follow. And in any run of
  process_args in which something was printed, the run raised an error, printed it
  once and did nothing after printing it.
\<close>

theorem stream_error_logged_once_and_raised:
  assumes prep: "setup_file filename st = (st1, Inr (filters, processors))"
    and stream: "run_parser X func filename (world st1) = foldr Yield rs tail"
    and before: "capture_loop X filters processors (foldr Yield rs Stop) st1 = (sk, Inr ())"
    and fails: "pull_one X filters processors tail sk = (st2, Inl error)"
    and caught: "isinstance_Exception error"
  shows "parse_one_file X filename func st = (emit (Print (exn_msg error)) st2, Inl error)
       \<and> events_since st (emit (Print (exn_msg error)) st2) =
           events_since st sk @ events_since sk st2 @ [Print (exn_msg error)]
       \<and> printed (events_since st (emit (Print (exn_msg error)) st2)) = [exn_msg error]
       \<and> file_loop X func (filename # files) st = (emit (Print (exn_msg error)) st2, Inl error)
       \<and> (process_args X a s = (s', r) \<and> printed (events_since s s') \<noteq> [] \<longrightarrow>
            (\<exists>e. r = Inl e \<and> printed (events_since s s') = [exn_msg e] \<and>
                 last (trace s') = Print (exn_msg e)))"
proof -
  let ?st' = "emit (Print (exn_msg error)) st2"
  have cl: "capture_loop X filters processors (run_parser X func filename (world st1)) st1
              = (st2, Inl error)"
    unfolding stream capture_loop_foldr[OF before] using fails by (rule capture_loop_pull_raise)
  have 1: "parse_one_file X filename func st = (?st', Inl error)"
    using prep cl caught by (simp add: parse_one_file_def)
  note sf = setup_file_events(1,5)[OF prep]
  note b = capture_loop_events[OF before]
  note p = pull_one_frame[OF fails]
  note ef = emit_frame[of st2 "Print (exn_msg error)"]
  have tgk: "trace_grows st sk" using sf(1) b by (blast intro: trace_grows_trans(1))
  have evk: "events_since st sk = events_since st st1 @ events_since st1 sk"
    using sf(1) b by (blast intro: trace_grows_trans(2))
  have tg2: "trace_grows st st2" using tgk p(1) by (rule trace_grows_trans(1))
  have ev2: "events_since st st2 = events_since st sk @ events_since sk st2"
    using tgk p(1) by (rule trace_grows_trans(2))
  have 2: "events_since st ?st' = events_since st sk @ events_since sk st2 @ [Print (exn_msg error)]"
    using trace_grows_trans(2)[OF tg2 ef(1)] by (simp add: ev2 ef(3))
  have qk: "printed (events_since st sk) = []" using sf(2) b by (simp add: evk printed_append)
  have 3: "printed (events_since st ?st') = [exn_msg error]"
    unfolding 2 using qk p(2) by (simp add: printed_append)
  have 4: "file_loop X func (filename # files) st = (?st', Inl error)"
    using 1 by simp
  have 5: "process_args X a s = (s', r) \<and> printed (events_since s s') \<noteq> [] \<longrightarrow>
            (\<exists>e. r = Inl e \<and> printed (events_since s s') = [exn_msg e] \<and>
                 last (trace s') = Print (exn_msg e))"
  proof
    assume h: "process_args X a s = (s', r) \<and> printed (events_since s s') \<noteq> []"
    then have run: "process_args X a s = (s', r)" and lg: "printed (events_since s s') \<noteq> []"
      by simp_all
    note pe = process_args_events(1,2)[OF run]
    from logged_last_raised[OF pe(2) lg] obtain e where
      e: "r = Inl e" "printed (events_since s s') = [exn_msg e]"
         "last (events_since s s') = Print (exn_msg e)" by blast
    have ne: "events_since s s' \<noteq> []" using lg by auto
    have "trace s' = trace s @ events_since s s'" using pe(1) by (simp add: trace_grows_def)
    then have "last (trace s') = last (events_since s s')" using ne by (metis last_appendR)
    then show "\<exists>e. r = Inl e \<and> printed (events_since s s') = [exn_msg e] \<and>
                 last (trace s') = Print (exn_msg e)" using e by auto
  qed
  show ?thesis using 1 2 3 4 5 by blast
qed


theorem stream_error_logged_once_and_raised_witness:
  "snd (setup_file ''five.xml'' demo_loaded_strict) =
     Inr ([(''strict.py'', demo_raise_on_2)], [(''store.py'', demo_keep)])
   \<and> run_parser demo_externals raft_parse_xml ''five.xml''
         (world (fst (setup_file ''five.xml'' demo_loaded_strict))) =
       foldr Yield [1] (Yield 2 (Yield 3 (Yield 4 (Yield 5 Stop))))
   \<and> isinstance_Exception (Exception ''ValueError'' ''bad capture'')
   \<and> snd (parse_one_file demo_externals ''five.xml'' raft_parse_xml demo_loaded_strict) =
       Inl (Exception ''ValueError'' ''bad capture'')
   \<and> printed (events_since demo_loaded_strict
         (fst (parse_one_file demo_externals ''five.xml'' raft_parse_xml demo_loaded_strict))) =
       [''bad capture'']
   \<and> trace (fst (process_args demo_externals demo_args_strict (init_raft 0))) =
       [OpenRead ''strict.py'', Compile ''strict.py'', Exec ''strict.py'',
        OpenRead ''store.py'', Compile ''store.py'', Exec ''store.py'',
        StderrWrite (''processing [five.xml]'' @ [CHR 0x0A]),
        Call_capture_filter ''strict.py'' 1 (Inr (PyCapture 1)),
        Call_process_capture ''store.py'' 1 (Inr (PyCapture 1)),
        Call_capture_filter ''strict.py'' 2 (Inl (Exception ''ValueError'' ''bad capture'')),
        Print ''bad capture'']
   \<and> snd (process_args demo_externals demo_args_strict (init_raft 0)) =
       Inl (Exception ''ValueError'' ''bad capture'')"
proof -
  let ?F = "[(''strict.py'', demo_raise_on_2)]"
  let ?P = "[(''store.py'', demo_keep)]"
  let ?tail = "Yield 2 (Yield 3 (Yield 4 (Yield 5 Stop)))"
  let ?S1 = "fst (setup_file ''five.xml'' demo_loaded_strict)"
  let ?SK = "fst (capture_loop demo_externals ?F ?P (foldr Yield [1] Stop) ?S1)"
  let ?S2 = "fst (pull_one demo_externals ?F ?P ?tail ?SK)"
  let ?err = "Exception ''ValueError'' ''bad capture''"
  have e1: "snd (setup_file ''five.xml'' demo_loaded_strict) = Inr (?F, ?P)"
    by (simp add: setup_file_def reset_initialized_def run_initializer_def
          demo_loaded_strict_def emit_def)
  have h1: "setup_file ''five.xml'' demo_loaded_strict = (?S1, Inr (?F, ?P))"
    using e1 by (simp add: prod_eq_iff)
  have h2: "run_parser demo_externals raft_parse_xml ''five.xml'' (world ?S1) =
       foldr Yield [1] ?tail"
    by (simp add: demo_externals_def)
  have e3: "snd (capture_loop demo_externals ?F ?P (foldr Yield [1] Stop) ?S1) = Inr ()"
    by (simp add: one_capture_def demo_externals_def demo_raise_on_2_def demo_keep_def)
  have h3: "capture_loop demo_externals ?F ?P (foldr Yield [1] Stop) ?S1 = (?SK, Inr ())"
    using e3 by (simp add: prod_eq_iff)
  have e4: "snd (pull_one demo_externals ?F ?P ?tail ?SK) = Inl ?err"
    by (simp add: one_capture_def demo_externals_def demo_raise_on_2_def demo_keep_def)
  have h4: "pull_one demo_externals ?F ?P ?tail ?SK = (?S2, Inl ?err)"
    using e4 by (simp add: prod_eq_iff)
  have h5: "isinstance_Exception ?err" by simp
  have e6: "trace (fst (process_args demo_externals demo_args_strict (init_raft 0))) =
       [OpenRead ''strict.py'', Compile ''strict.py'', Exec ''strict.py'',
        OpenRead ''store.py'', Compile ''store.py'', Exec ''store.py'',
        StderrWrite (''processing [five.xml]'' @ [CHR 0x0A]),
        Call_capture_filter ''strict.py'' 1 (Inr (PyCapture 1)),
        Call_process_capture ''store.py'' 1 (Inr (PyCapture 1)),
        Call_capture_filter ''strict.py'' 2 (Inl (Exception ''ValueError'' ''bad capture'')),
        Print ''bad capture'']"
    by (simp add: demo_run_defs demo_args_strict_def demo_raise_on_2_def)
  have e7: "snd (process_args demo_externals demo_args_strict (init_raft 0)) = Inl ?err"
    by (simp add: demo_run_defs demo_args_strict_def demo_raise_on_2_def)
  note t = stream_error_logged_once_and_raised [OF h1 h2 h3 h4 h5]
  have c1: "parse_one_file demo_externals ''five.xml'' raft_parse_xml demo_loaded_strict =
      (emit (Print (exn_msg ?err)) ?S2, Inl ?err)"
    using t by (rule conjunct1)
  have c3: "printed (events_since demo_loaded_strict (emit (Print (exn_msg ?err)) ?S2)) =
      [exn_msg ?err]"
    using t by blast
  have r1: "snd (parse_one_file demo_externals ''five.xml'' raft_parse_xml demo_loaded_strict) =
       Inl ?err"
    by (simp only: c1 snd_conv)
  have r2: "printed (events_since demo_loaded_strict
         (fst (parse_one_file demo_externals ''five.xml'' raft_parse_xml demo_loaded_strict))) =
       [''bad capture'']"
    using c3 by (simp only: c1 fst_conv exn.sel)
  show ?thesis using e1 h2 h5 r1 r2 e6 e7 by blast
qed

end
